theory Spec2Isabelle
  imports Complex_Main
begin

section \<open>Edge-based geodesic solver: embedding of EdgeBasedGeodesicSolver.cpp\<close>

text \<open>
  The solver works on a half-edge triangle mesh (the surface_mesh library, whose sources
  are not part of the file verified here) and on dense vectors of doubles.

  \<^item> Doubles (and the HeatScalar type) are modelled as \<open>real\<close>: every statement below is
    about exact arithmetic. Rounding, infinities and NaN are outside the model.
  \<^item> C++ \<open>int\<close> indices are modelled as \<open>int\<close> where the code stores the sentinel \<open>-1\<close>
    and as \<open>nat\<close> where the value is a mesh handle; 32-bit overflow is not modelled.
  \<^item> The OpenMP loops are modelled as the sequential loops they annotate.
  \<^item> An access that the C++ performs outside an array (undefined behaviour) is the value
    \<open>Inl Index_Out_Of_Range\<close> in the breadth-first traversal, in the per-vertex
    Laplacian loop and in the layer loops; elsewhere the lists are indexed directly and
    the theorems carry the mesh conditions that keep the indices in range.
\<close>

subsection \<open>Three-vectors\<close>

type_synonym vec3 = "real \<times> real \<times> real"

fun vsub :: "vec3 \<Rightarrow> vec3 \<Rightarrow> vec3" where
  "vsub (a, b, c) (x, y, z) = (a - x, b - y, c - z)"

fun vadd :: "vec3 \<Rightarrow> vec3 \<Rightarrow> vec3" where
  "vadd (a, b, c) (x, y, z) = (a + x, b + y, c + z)"

fun vscale :: "real \<Rightarrow> vec3 \<Rightarrow> vec3" where
  "vscale k (x, y, z) = (k * x, k * y, k * z)"

fun vdiv :: "vec3 \<Rightarrow> real \<Rightarrow> vec3" where
  "vdiv (x, y, z) k = (x / k, y / k, z / k)"

fun vmin :: "vec3 \<Rightarrow> vec3 \<Rightarrow> vec3" where
  "vmin (a, b, c) (x, y, z) = (min a x, min b y, min c z)"

fun vmax :: "vec3 \<Rightarrow> vec3 \<Rightarrow> vec3" where
  "vmax (a, b, c) (x, y, z) = (max a x, max b y, max c z)"

fun dot :: "vec3 \<Rightarrow> vec3 \<Rightarrow> real" where
  "dot (a, b, c) (x, y, z) = a * x + b * y + c * z"

fun cross :: "vec3 \<Rightarrow> vec3 \<Rightarrow> vec3" where
  "cross (a, b, c) (x, y, z) = (b * z - c * y, c * x - a * z, a * y - b * x)"

definition squaredNorm :: "vec3 \<Rightarrow> real" where
  "squaredNorm v = dot v v"

definition norm3 :: "vec3 \<Rightarrow> real" where
  "norm3 v = sqrt (squaredNorm v)"

definition normalized :: "vec3 \<Rightarrow> vec3" where
  \<comment> \<open>Eigen returns the vector itself when its norm is zero.\<close>
  "normalized v = (if squaredNorm v > 0 then vdiv v (norm3 v) else v)"

definition vec_norm :: "real list \<Rightarrow> real" where
  \<comment> \<open>Eigen's \<open>norm()\<close> of a dense vector.\<close>
  "vec_norm xs = sqrt (sum_list (map (\<lambda>x. x * x) xs))"

definition vec_squaredNorm :: "real list \<Rightarrow> real" where
  "vec_squaredNorm xs = sum_list (map (\<lambda>x. x * x) xs)"

subsection \<open>The mesh adapter and the parameters\<close>

text \<open>
  The mesh is taken as a parameter: a record of the read-only queries the solver calls.
  \<open>halfedges_v v\<close> is the sequence of outgoing halfedges that the solver's do-while loop
  over the vertex circulator visits, \<open>halfedges_f f\<close> the sequence for the face
  circulator, \<open>faces_v v\<close> the sequence for the face-around-vertex circulator.
\<close>

record surface_mesh =
  n_vertices :: nat
  n_faces :: nat
  n_edges :: nat
  n_halfedges :: nat
  position :: "nat \<Rightarrow> vec3"
  to_vertex :: "nat \<Rightarrow> nat"
  from_vertex :: "nat \<Rightarrow> nat"
  edge :: "nat \<Rightarrow> nat"
  halfedge :: "nat \<Rightarrow> nat \<Rightarrow> nat"
  opposite_halfedge :: "nat \<Rightarrow> nat"
  valence :: "nat \<Rightarrow> nat"
  halfedges_v :: "nat \<Rightarrow> nat list"
  halfedges_f :: "nat \<Rightarrow> nat list"
  faces_v :: "nat \<Rightarrow> nat list"

record parameters =
  source_vertices :: "int list"
  heat_solver_eps :: real
  heat_solver_max_iter :: int
  heat_solver_convergence_check_frequency :: int
  grad_solver_eps :: real
  grad_solver_max_iter :: int
  grad_solver_convergence_check_frequency :: int
  grad_solver_output_frequency :: int
  penalty :: real

datatype fault = Index_Out_Of_Range

fun foldM :: "('a \<Rightarrow> 's \<Rightarrow> fault + 's) \<Rightarrow> 'a list \<Rightarrow> 's \<Rightarrow> fault + 's" where
  "foldM f [] s = Inr s"
| "foldM f (x # xs) s = (case f x s of Inl e \<Rightarrow> Inl e | Inr s' \<Rightarrow> foldM f xs s')"

subsection \<open>load_input and normalize_mesh\<close>

definition load_input :: "bool \<Rightarrow> surface_mesh \<Rightarrow> parameters \<Rightarrow> bool" where
  \<comment> \<open>\<open>read_ok\<close> is the result of \<open>surface_mesh::read_mesh\<close>, \<open>m\<close> the mesh it produced.\<close>
  "load_input read_ok m param =
     (if \<not> read_ok then False
      else if n_vertices m = 0 \<or> n_faces m = 0 \<or> n_edges m = 0 then False
      else if \<exists>i < length (source_vertices param).
                source_vertices param ! i < 0
                \<or> source_vertices param ! i \<ge> int (n_vertices m) then False
      else True)"

definition normalize_mesh :: "surface_mesh \<Rightarrow> surface_mesh \<times> real" where
  "normalize_mesh m =
     (let pos = map (position m) [0..<n_vertices m];
          min_coord = fold (\<lambda>coord acc. vmin acc coord) (tl pos) (hd pos);
          max_coord = fold (\<lambda>coord acc. vmax acc coord) (tl pos) (hd pos);
          model_scaling_factor = norm3 (vsub max_coord min_coord);
          center_pos = vscale 0.5 (vadd min_coord max_coord)
      in (m\<lparr>position := (\<lambda>v. vdiv (vsub (position m v) center_pos) model_scaling_factor)\<rparr>,
          model_scaling_factor))"

subsection \<open>init_bfs_paths\<close>

record bfs_state =
  bfs_vertex_list :: "int list"
  transition_halfedge_idx :: "int list"
  bfs_laplacian_coef_addr :: "int list"
  bfs_segment_addr_vec :: "int list"
  visited :: "bool list"
  next_front :: "nat list"
  bfs_id :: nat

definition bfs_init :: "surface_mesh \<Rightarrow> parameters \<Rightarrow> bfs_state" where
  \<comment> \<open>The state before the loop over the sources. Entries of the address vector after the
      first are not initialised by the code; they are 0 here and written before any use.\<close>
  "bfs_init m param =
     \<lparr>bfs_vertex_list = replicate (n_vertices m) (-1),
      transition_halfedge_idx = replicate (n_vertices m) (-1),
      bfs_laplacian_coef_addr = replicate (n_vertices m + 1) 0,
      bfs_segment_addr_vec = [0, int (length (source_vertices param))],
      visited = replicate (n_vertices m) False,
      next_front = [],
      bfs_id = 0\<rparr>"

definition bfs_source :: "surface_mesh \<Rightarrow> int \<Rightarrow> bfs_state \<Rightarrow> fault + bfs_state" where
  \<comment> \<open>One iteration of the loop over the sources (\<open>id\<close> is \<open>bfs_id\<close>).\<close>
  "bfs_source m current_source_vtx s =
     (if current_source_vtx < 0 \<or> current_source_vtx \<ge> int (length (visited s))
         \<or> bfs_id s \<ge> length (bfs_vertex_list s)
         \<or> bfs_id s + 1 \<ge> length (bfs_laplacian_coef_addr s)
      then Inl Index_Out_Of_Range
      else Inr (s\<lparr>visited := (visited s)[nat current_source_vtx := True],
                  bfs_vertex_list := (bfs_vertex_list s)[bfs_id s := current_source_vtx],
                  bfs_laplacian_coef_addr := (bfs_laplacian_coef_addr s)
                     [bfs_id s + 1 := bfs_laplacian_coef_addr s ! bfs_id s
                        + int (valence m (nat current_source_vtx)) + 1],
                  bfs_id := bfs_id s + 1\<rparr>))"

definition bfs_visit :: "surface_mesh \<Rightarrow> nat \<Rightarrow> bfs_state \<Rightarrow> fault + bfs_state" where
  \<comment> \<open>The body of the do-while loop for the halfedge \<open>heh\<close>.\<close>
  "bfs_visit m heh s =
     (let next_v = to_vertex m heh in
      if next_v \<ge> length (visited s) then Inl Index_Out_Of_Range
      else if \<not> visited s ! next_v then
        (if bfs_id s \<ge> length (bfs_vertex_list s)
            \<or> bfs_id s + 1 \<ge> length (bfs_laplacian_coef_addr s)
            \<or> bfs_id s \<ge> length (transition_halfedge_idx s)
         then Inl Index_Out_Of_Range
         else Inr (s\<lparr>next_front := next_front s @ [next_v],
                     bfs_vertex_list := (bfs_vertex_list s)[bfs_id s := int next_v],
                     bfs_laplacian_coef_addr := (bfs_laplacian_coef_addr s)
                        [bfs_id s + 1 := bfs_laplacian_coef_addr s ! bfs_id s
                           + int (valence m next_v) + 1],
                     transition_halfedge_idx :=
                        (transition_halfedge_idx s)[bfs_id s := int heh],
                     bfs_id := bfs_id s + 1,
                     visited := (visited s)[next_v := True]\<rparr>))
      else Inr (s\<lparr>visited := (visited s)[next_v := True]\<rparr>))"

definition bfs_expand :: "surface_mesh \<Rightarrow> nat list \<Rightarrow> bfs_state \<Rightarrow> fault + bfs_state" where
  \<comment> \<open>The loop over the current front, with the do-while over each vertex's ring.\<close>
  "bfs_expand m current_front s =
     foldM (\<lambda>vh. foldM (bfs_visit m) (halfedges_v m vh)) current_front s"

definition unvisited :: "bfs_state \<Rightarrow> nat" where
  "unvisited s = length (filter Not (visited s))"

lemma bfs_visit_unvisited:
  "bfs_visit m heh s = Inr s' \<Longrightarrow>
     unvisited s' + length (next_front s') = unvisited s + length (next_front s)"
proof -
  have flip: "\<And>v xs. v < length xs \<Longrightarrow> \<not> xs ! v \<Longrightarrow>
      Suc (length (filter Not (xs[v := True]))) = length (filter Not xs)"
  proof -
    fix v :: nat and xs :: "bool list"
    assume "v < length xs" "\<not> xs ! v"
    then show "Suc (length (filter Not (xs[v := True]))) = length (filter Not xs)"
    proof (induction xs arbitrary: v)
      case Nil
      then show ?case by simp
    next
      case (Cons a xs)
      then show ?case by (cases v) auto
    qed
  qed
  assume a: "bfs_visit m heh s = Inr s'"
  show ?thesis
  proof (cases "visited s ! to_vertex m heh")
    case True
    then have "(visited s)[to_vertex m heh := True] = visited s"
      by (metis list_update_id)
    with a True show ?thesis
      by (auto simp: bfs_visit_def Let_def unvisited_def split: if_splits)
  next
    case False
    with a flip[of "to_vertex m heh" "visited s"] show ?thesis
      by (auto simp: bfs_visit_def Let_def unvisited_def split: if_splits)
  qed
qed

lemma foldM_bfs_visit_unvisited:
  "foldM (bfs_visit m) hs s = Inr s' \<Longrightarrow>
     unvisited s' + length (next_front s') = unvisited s + length (next_front s)"
proof (induction hs arbitrary: s)
  case Nil
  then show ?case by simp
next
  case (Cons h hs)
  then show ?case
    by (auto split: sum.splits dest!: bfs_visit_unvisited)
qed

lemma bfs_expand_unvisited:
  "bfs_expand m front s = Inr s' \<Longrightarrow>
     unvisited s' + length (next_front s') = unvisited s + length (next_front s)"
  unfolding bfs_expand_def
proof (induction front arbitrary: s)
  case Nil
  then show ?case by simp
next
  case (Cons v front)
  then show ?case
    by (auto split: sum.splits dest!: foldM_bfs_visit_unvisited)
qed

function bfs_loop :: "surface_mesh \<Rightarrow> nat list \<Rightarrow> bfs_state \<Rightarrow> fault + bfs_state" where
  "bfs_loop m current_front s =
     (if current_front = [] then Inr s
      else case bfs_expand m current_front (s\<lparr>next_front := []\<rparr>) of
             Inl e \<Rightarrow> Inl e
           | Inr s' \<Rightarrow>
               bfs_loop m (next_front s')
                 (s'\<lparr>bfs_segment_addr_vec := bfs_segment_addr_vec s'
                        @ [last (bfs_segment_addr_vec s') + int (length (next_front s'))]\<rparr>))"
  by pat_completeness auto
termination
proof (relation "measure (\<lambda>(m, front, s). 2 * unvisited s + (if front = [] then 0 else 1))",
       goal_cases)
  case 1
  then show ?case by simp
next
  case (2 m current_front s s')
  from bfs_expand_unvisited[OF 2(2)]
  have "unvisited s' + length (next_front s') = unvisited s"
    by (simp add: unvisited_def)
  with 2(1) show ?case
    by (cases "next_front s'") (auto simp: unvisited_def)
qed

declare bfs_loop.simps [simp del]

definition init_bfs_paths :: "surface_mesh \<Rightarrow> parameters \<Rightarrow> fault + bfs_state" where
  "init_bfs_paths m param =
     (case foldM (bfs_source m) (source_vertices param) (bfs_init m param) of
        Inl e \<Rightarrow> Inl e
      | Inr s \<Rightarrow> bfs_loop m (map nat (source_vertices param)) s)"

subsection \<open>gauss_seidel_init_gradients: geometry and Laplacian assembly\<close>

definition compute_edge_vector :: "surface_mesh \<Rightarrow> vec3 list" where
  "compute_edge_vector m =
     map (\<lambda>i. let heh = halfedge m i 0
               in vsub (position m (to_vertex m heh)) (position m (from_vertex m heh)))
         [0..<n_edges m]"

definition compute_edge_sqr_length :: "surface_mesh \<Rightarrow> real list" where
  "compute_edge_sqr_length m = map squaredNorm (compute_edge_vector m)"

definition compute_step_length :: "real list \<Rightarrow> real" where
  "compute_step_length edge_sqr_length =
     (let h = sum_list (map sqrt edge_sqr_length) / real (length edge_sqr_length)
      in h * h)"

definition face_halfcot ::
  "surface_mesh \<Rightarrow> vec3 list \<Rightarrow> real list \<Rightarrow> nat \<Rightarrow> real list \<times> real list
     \<Rightarrow> real list \<times> real list" where
  \<comment> \<open>One iteration of the loop over the faces; the state is
      \<open>(halfedge_halfcot, face_area)\<close>.\<close>
  "face_halfcot m edge_vector edge_sqr_length i = (\<lambda>(halfedge_halfcot, face_area).
     let fh_idx = halfedges_f m i;
         fe_idx = map (edge m) fh_idx;
         edge_l2 = map (\<lambda>e. edge_sqr_length ! e) fe_idx;
         area = norm3 (cross (edge_vector ! (fe_idx ! 0)) (edge_vector ! (fe_idx ! 1))) * 0.5
     in (fold (\<lambda>j hc. hc[fh_idx ! j :=
                  0.125 * (edge_l2 ! ((j + 1) mod 3) + edge_l2 ! ((j + 2) mod 3) - edge_l2 ! j)
                    / area])
              [0..<3] halfedge_halfcot,
         face_area[i := area]))"

definition compute_halfcot :: "surface_mesh \<Rightarrow> real list \<times> real list" where
  "compute_halfcot m =
     fold (face_halfcot m (compute_edge_vector m) (compute_edge_sqr_length m))
          [0..<n_faces m]
          (replicate (n_halfedges m) 0, replicate (n_faces m) 0)"

definition fit :: "nat \<Rightarrow> 'a \<Rightarrow> 'a list \<Rightarrow> 'a list" where
  \<comment> \<open>A vector of size \<open>n\<close>, zero-initialised and then written from index 0 with \<open>xs\<close>.\<close>
  "fit n z xs = take n (xs @ replicate (n - length xs) z)"

definition laplacian_row ::
  "surface_mesh \<Rightarrow> real list \<Rightarrow> real list \<Rightarrow> real \<Rightarrow> nat \<Rightarrow> nat
     \<Rightarrow> int list \<times> real list \<times> real" where
  \<comment> \<open>The local vectors \<open>vtx_idx\<close> and \<open>weights\<close> (of size \<open>n\<close>) and \<open>vertex_A\<close> for the
      vertex \<open>v_idx\<close>.\<close>
  "laplacian_row m halfedge_halfcot face_area step_length n v_idx =
     (let ring = halfedges_v m v_idx;
          k = length ring;
          w = map (\<lambda>heh. halfedge_halfcot ! heh
                           + halfedge_halfcot ! opposite_halfedge m heh) ring;
          vtx_idx = fit n 0 (map (\<lambda>heh. int (to_vertex m heh)) ring @ [int v_idx]);
          weights = map (\<lambda>x. x * step_length) (fit n 0 (w @ [sum_list w]));
          A = fold (\<lambda>f acc. acc + face_area ! f) (faces_v m v_idx) 0;
          vertex_A = A / 3
      in (vtx_idx, weights[k := weights ! k + vertex_A], vertex_A))"

definition laplacian_vertex ::
  "surface_mesh \<Rightarrow> bfs_state \<Rightarrow> real list \<Rightarrow> real list \<Rightarrow> real \<Rightarrow> nat
     \<Rightarrow> (int \<times> real) list \<times> real list \<Rightarrow> fault + (int \<times> real) list \<times> real list" where
  \<comment> \<open>One iteration of the loop over the BFS positions; the state is
      \<open>(bfs_laplacian_coef, vertex_area)\<close>. A position still holding \<open>-1\<close> makes the code
      build the handle \<open>Vertex(-1)\<close> and circulate around it.\<close>
  "laplacian_vertex m bfs halfedge_halfcot face_area step_length i =
     (\<lambda>(bfs_laplacian_coef, vertex_area).
       let start_addr = nat (bfs_laplacian_coef_addr bfs ! i);
           end_addr = nat (bfs_laplacian_coef_addr bfs ! (i + 1));
           n = end_addr - start_addr
       in if bfs_vertex_list bfs ! i < 0 then Inl Index_Out_Of_Range
          else
            let v_idx = nat (bfs_vertex_list bfs ! i);
                (vtx_idx, weights, vertex_A) =
                   laplacian_row m halfedge_halfcot face_area step_length n v_idx
            in Inr (fold (\<lambda>j c. c[j := (vtx_idx ! (j - start_addr),
                                         weights ! (j - start_addr))])
                         [start_addr..<end_addr] bfs_laplacian_coef,
                    vertex_area[v_idx := vertex_A]))"

definition compute_laplacian ::
  "surface_mesh \<Rightarrow> bfs_state \<Rightarrow> fault + (int \<times> real) list \<times> real list" where
  "compute_laplacian m bfs =
     foldM (laplacian_vertex m bfs (fst (compute_halfcot m)) (snd (compute_halfcot m))
              (compute_step_length (compute_edge_sqr_length m)))
           [0..<n_vertices m]
           (replicate (n_edges m * 2 + n_vertices m) (0, 0), replicate (n_vertices m) 0)"

subsection \<open>gauss_seidel_init_gradients: the heat iteration\<close>

definition total_source_area :: "parameters \<Rightarrow> real list \<Rightarrow> real" where
  "total_source_area param vertex_area =
     fold (\<lambda>s acc. acc + vertex_area ! nat s) (source_vertices param) 0"

definition init_source_divisors :: "parameters \<Rightarrow> real list \<Rightarrow> real \<times> real" where
  \<comment> \<open>The two divisors of the expression for \<open>init_source_val\<close>:
      \<open>HeatScalar(n_sources)\<close> and \<open>total_source_area\<close>.\<close>
  "init_source_divisors param vertex_area =
     (real (length (source_vertices param)), total_source_area param vertex_area)"

definition compute_init_source_val :: "nat \<Rightarrow> parameters \<Rightarrow> real list \<Rightarrow> real" where
  "compute_init_source_val n param vertex_area =
     (let (n_sources, total) = init_source_divisors param vertex_area
      in sqrt (min (real n / n_sources) (sum_list vertex_area / total)))"

record heat_system =
  hs_n_vertices :: nat
  hs_n_sources :: nat
  hs_vertex_list :: "int list"
  hs_coef_addr :: "int list"
  hs_segment_addr :: "int list"
  hs_coef :: "(int \<times> real) list"
  init_source_val :: real
  hs_eps :: real
  hs_max_iter :: int
  hs_check_frequency :: int

definition compute_heatflow_residual ::
  "nat \<Rightarrow> nat \<Rightarrow> int list \<Rightarrow> (int \<times> real) list \<Rightarrow> real list \<Rightarrow> real \<Rightarrow> real list" where
  "compute_heatflow_residual n n_sources coef_addr coef heat_values source_val =
     map (\<lambda>i. let lap_coef_begin_addr = nat (coef_addr ! i);
                   lap_coef_end_addr = nat (coef_addr ! (i + 1))
               in fold (\<lambda>j res. res + heat_values ! nat (fst (coef ! j)) * snd (coef ! j)
                                    * (if int j = int lap_coef_end_addr - 1 then - 1 else 1))
                       [lap_coef_begin_addr..<lap_coef_end_addr]
                       (if i < n_sources then source_val else 0))
         [0..<n]"

definition heat_residual_norm :: "heat_system \<Rightarrow> real list \<Rightarrow> real" where
  "heat_residual_norm hs d =
     vec_norm (compute_heatflow_residual (hs_n_vertices hs) (hs_n_sources hs)
                 (hs_coef_addr hs) (hs_coef hs) d (init_source_val hs))"

definition heat_threshold :: "real \<Rightarrow> real \<Rightarrow> real" where
  "heat_threshold init_residual_norm heat_eps = max (1 / 10 ^ 16) (init_residual_norm * heat_eps)"

definition gs_update_segment :: "heat_system \<Rightarrow> nat \<Rightarrow> real list \<Rightarrow> real list" where
  \<comment> \<open>The two loops over one BFS layer: new values into \<open>temp_d\<close>, then written back.\<close>
  "gs_update_segment hs segment_count current_d =
     (let segment_begin_addr = nat (hs_segment_addr hs ! segment_count);
          segment_end_addr = nat (hs_segment_addr hs ! (segment_count + 1));
          temp_d = map (\<lambda>i.
              let lap_coef_begin_addr = nat (hs_coef_addr hs ! i);
                  lap_coef_end_addr = nat (hs_coef_addr hs ! (i + 1));
                  new_heat_value =
                    fold (\<lambda>j acc. acc + current_d ! nat (fst (hs_coef hs ! j))
                                         * snd (hs_coef hs ! j))
                         [lap_coef_begin_addr..<lap_coef_end_addr - 1]
                         (if segment_count = 0 then init_source_val hs else 0)
              in new_heat_value / snd (hs_coef hs ! (lap_coef_end_addr - 1)))
            [segment_begin_addr..<segment_end_addr]
      in fold (\<lambda>i d. d[nat (hs_vertex_list hs ! i) := temp_d ! (i - segment_begin_addr)])
              [segment_begin_addr..<segment_end_addr] current_d)"

function gs_loop :: "heat_system \<Rightarrow> nat \<Rightarrow> int \<Rightarrow> real list \<Rightarrow> fault + int \<times> real list" where
  \<comment> \<open>\<open>while (!end_gs_loop)\<close>: each pass handles one layer; the result is the final
      \<open>gs_iter\<close> and heat vector.\<close>
  "gs_loop hs segment_count gs_iter current_d =
     (if segment_count + 1 \<ge> length (hs_segment_addr hs) then Inl Index_Out_Of_Range
      else
        let n_segments = length (hs_segment_addr hs) - 1;
            d = gs_update_segment hs segment_count current_d;
            reset_iter = (segment_count + 1 = n_segments);
            gs_iter' = (if reset_iter then gs_iter + 1 else gs_iter);
            segment_count' = (if reset_iter then 0 else segment_count + 1);
            end_gs_loop = (gs_iter' \<ge> hs_max_iter hs);
            need_check_residual =
              (end_gs_loop \<or> (reset_iter \<and> gs_iter' mod hs_check_frequency hs = 0))
        in if end_gs_loop \<or> (need_check_residual \<and> heat_residual_norm hs d \<le> hs_eps hs)
           then Inr (gs_iter', d)
           else gs_loop hs segment_count' gs_iter' d)"
  by pat_completeness auto
termination
  by (relation "measures [\<lambda>(hs, sc, it, d). nat (hs_max_iter hs - it),
                          \<lambda>(hs, sc, it, d). length (hs_segment_addr hs) - sc]")
     (auto split: if_splits)

declare gs_loop.simps [simp del]

definition face_gradient :: "surface_mesh \<Rightarrow> vec3 list \<Rightarrow> real list \<Rightarrow> nat \<Rightarrow> vec3" where
  "face_gradient m edge_vector current_d i =
     (let ring = halfedges_f m i;
          cols = map (\<lambda>heh. let eh = edge m heh; current_edge = edge_vector ! eh
                            in if halfedge m eh 0 \<noteq> heh then vscale (- 1) current_edge
                               else current_edge) ring;
          vals = map (\<lambda>heh. current_d ! to_vertex m heh) ring;
          heat_vals = map (\<lambda>x. x / vec_norm vals) vals;
          frob = sqrt (sum_list (map squaredNorm cols));
          edge_vecs = map (\<lambda>c. vdiv c frob) cols;
          N = normalized (cross (edge_vecs ! 0) (edge_vecs ! 1));
          V = vadd (vadd (vscale (heat_vals ! 1) (edge_vecs ! 0))
                         (vscale (heat_vals ! 2) (edge_vecs ! 1)))
                   (vscale (heat_vals ! 0) (edge_vecs ! 2))
      in normalized (cross V N))"

definition make_heat_system ::
  "surface_mesh \<Rightarrow> parameters \<Rightarrow> bfs_state \<Rightarrow> (int \<times> real) list \<Rightarrow> real list \<Rightarrow> heat_system" where
  "make_heat_system m param bfs coef vertex_area =
     (let n_sources = length (source_vertices param);
          source_val = compute_init_source_val (n_vertices m) param vertex_area;
          current_d = fold (\<lambda>s d. d[nat s := source_val]) (source_vertices param)
                           (replicate (n_vertices m) 0);
          init_residual_norm =
            vec_norm (compute_heatflow_residual (n_vertices m) n_sources
                        (bfs_laplacian_coef_addr bfs) coef current_d source_val)
      in \<lparr>hs_n_vertices = n_vertices m, hs_n_sources = n_sources,
          hs_vertex_list = bfs_vertex_list bfs,
          hs_coef_addr = bfs_laplacian_coef_addr bfs,
          hs_segment_addr = bfs_segment_addr_vec bfs,
          hs_coef = coef, init_source_val = source_val,
          hs_eps = heat_threshold init_residual_norm (heat_solver_eps param),
          hs_max_iter = heat_solver_max_iter param,
          hs_check_frequency = heat_solver_convergence_check_frequency param\<rparr>)"

definition initial_heat :: "parameters \<Rightarrow> heat_system \<Rightarrow> real list" where
  "initial_heat param hs =
     fold (\<lambda>s d. d[nat s := init_source_val hs]) (source_vertices param)
          (replicate (hs_n_vertices hs) 0)"

definition gauss_seidel_init_gradients ::
  "surface_mesh \<Rightarrow> parameters \<Rightarrow> bfs_state \<Rightarrow> fault + vec3 list" where
  \<comment> \<open>Returns \<open>init_grad\<close>, one column per face.\<close>
  "gauss_seidel_init_gradients m param bfs =
     (case compute_laplacian m bfs of
        Inl e \<Rightarrow> Inl e
      | Inr (coef, vertex_area) \<Rightarrow>
          let hs = make_heat_system m param bfs coef vertex_area
          in case gs_loop hs 0 0 (initial_heat param hs) of
               Inl e \<Rightarrow> Inl e
             | Inr (gs_iter, current_d) \<Rightarrow>
                 Inr (map (face_gradient m (compute_edge_vector m) current_d)
                          [0..<n_faces m]))"

subsection \<open>prepare_integrate_geodesic_distance\<close>

text \<open>
  The matrices \<open>S\<close>, \<open>Q\<close> (3 rows, one column per face) and \<open>edges_Y_index\<close> (2 rows, one
  column per edge) are stored column-major: entry \<open>(k, i)\<close> of a matrix with \<open>r\<close> rows is
  entry \<open>r * i + k\<close> of the list.
\<close>

type_synonym incidence = "real list \<times> int list \<times> int list \<times> int list \<times> nat list"

definition incidence_corner ::
  "surface_mesh \<Rightarrow> vec3 list \<Rightarrow> nat \<Rightarrow> nat \<times> nat \<Rightarrow> incidence \<Rightarrow> incidence" where
  \<comment> \<open>The body of the do-while loop for corner \<open>k\<close> (halfedge \<open>fhc\<close>) of face \<open>i\<close>; the
      state is \<open>(Z, S, Q, edges_Y_index, num_rows)\<close>.\<close>
  "incidence_corner m init_grad i = (\<lambda>(k, fhc) (Z, S, Q, edges_Y_index, num_rows).
     let e = edge m fhc;
         edge_index = e;
         e_vector = vsub (position m (from_vertex m fhc)) (position m (to_vertex m fhc));
         q = (if fhc = halfedge m e 0 then 1 else - 1);
         z = (if fhc = halfedge m e 0 then dot (init_grad ! i) e_vector
              else dot (init_grad ! i) (vscale (- 1) e_vector))
     in (Z[3 * i + k := z],
         S[3 * i + k := int edge_index],
         Q[3 * i + k := q],
         edges_Y_index[2 * edge_index + num_rows ! edge_index := int (3 * i + k)],
         num_rows[edge_index := num_rows ! edge_index + 1]))"

definition incidence_face ::
  "surface_mesh \<Rightarrow> vec3 list \<Rightarrow> nat \<Rightarrow> incidence \<Rightarrow> incidence" where
  "incidence_face m init_grad i =
     fold (incidence_corner m init_grad i) (enumerate 0 (halfedges_f m i))"

definition compute_incidence :: "surface_mesh \<Rightarrow> vec3 list \<Rightarrow> incidence" where
  "compute_incidence m init_grad =
     fold (incidence_face m init_grad) [0..<n_faces m]
          (replicate (3 * n_faces m) 0, replicate (3 * n_faces m) 0,
           replicate (3 * n_faces m) 0, replicate (2 * n_edges m) (- 1),
           replicate (n_edges m) 0)"

definition compute_transition_from_vtx :: "surface_mesh \<Rightarrow> int list \<Rightarrow> int list" where
  "compute_transition_from_vtx m transition_halfedge =
     map (\<lambda>i. let heh = transition_halfedge ! i
               in if heh \<noteq> - 1 then int (from_vertex m (nat heh)) else - 1)
         [0..<n_vertices m]"

definition compute_transition_edge_idx :: "surface_mesh \<Rightarrow> int list \<Rightarrow> int list" where
  "compute_transition_edge_idx m transition_halfedge =
     map (\<lambda>i. let heh = transition_halfedge ! i
               in if heh \<noteq> - 1
                  then (let e = edge m (nat heh)
                        in if nat heh = halfedge m e 0 then - int e - 1 else int e)
                  else - 1)
         [0..<n_vertices m]"

definition valid_slots :: "int list \<Rightarrow> nat \<Rightarrow> nat list" where
  \<comment> \<open>The slots \<open>edges_Y_index(j, i)\<close>, \<open>j = 0, 1\<close>, that pass the test \<open>index >= 0\<close>.\<close>
  "valid_slots edges_Y_index i =
     map nat (filter (\<lambda>index. index \<ge> 0) (map (\<lambda>j. edges_Y_index ! (2 * i + j)) [0..<2]))"

definition init_X :: "nat \<Rightarrow> int list \<Rightarrow> real list \<Rightarrow> real list" where
  "init_X n_e edges_Y_index Z =
     map (\<lambda>i. let slots = valid_slots edges_Y_index i;
                   r = fold (\<lambda>index r. r + Z ! index) slots 0;
                   n_var = length slots
               in r / real n_var)
         [0..<n_e]"

definition gather_SX :: "nat \<Rightarrow> int list \<Rightarrow> real list \<Rightarrow> real list" where
  \<comment> \<open>\<open>SX(3 i + k) = X(S(k, i))\<close> for every face \<open>i\<close>.\<close>
  "gather_SX n_f S X =
     concat (map (\<lambda>i. [X ! nat (S ! (3 * i)), X ! nat (S ! (3 * i + 1)),
                        X ! nat (S ! (3 * i + 2))]) [0..<n_f])"

subsection \<open>compute_integrable_gradients (ADMM)\<close>

definition update_Y_face ::
  "real list \<Rightarrow> real list \<Rightarrow> int list \<Rightarrow> nat \<Rightarrow> real list \<Rightarrow> real list" where
  "update_Y_face prev_SX D Q i Y =
     (let y = (prev_SX ! (3 * i) - D ! (3 * i),
               prev_SX ! (3 * i + 1) - D ! (3 * i + 1),
               prev_SX ! (3 * i + 2) - D ! (3 * i + 2));
          q = (real_of_int (Q ! (3 * i)), real_of_int (Q ! (3 * i + 1)),
               real_of_int (Q ! (3 * i + 2)));
          r = vsub y (vscale (1 / 3 * dot q y) q)
      in Y[3 * i := fst r, 3 * i + 1 := fst (snd r), 3 * i + 2 := snd (snd r)])"

definition update_Y ::
  "nat \<Rightarrow> real list \<Rightarrow> real list \<Rightarrow> int list \<Rightarrow> real list \<Rightarrow> real list" where
  "update_Y n_f prev_SX D Q Y = fold (update_Y_face prev_SX D Q) [0..<n_f] Y"

definition update_X_edge ::
  "real \<Rightarrow> int list \<Rightarrow> real list \<Rightarrow> real list \<Rightarrow> real list \<Rightarrow> nat \<Rightarrow> real" where
  "update_X_edge rho edges_Y_index Y D Z i =
     (let slots = valid_slots edges_Y_index i;
          r = fold (\<lambda>index r. r + (rho * (Y ! index + D ! index) + Z ! index)) slots 0;
          n_aux_var = length slots
      in r / ((rho + 1) * real n_aux_var))"

definition update_X ::
  "nat \<Rightarrow> real \<Rightarrow> int list \<Rightarrow> real list \<Rightarrow> real list \<Rightarrow> real list \<Rightarrow> real list
     \<Rightarrow> real list" where
  "update_X n_e rho edges_Y_index Y D Z X =
     fold (\<lambda>i X'. X'[i := update_X_edge rho edges_Y_index Y D Z i]) [0..<n_e] X"

record admm_data =
  ad_n_faces :: nat
  ad_n_edges :: nat
  ad_Z :: "real list"
  ad_S :: "int list"
  ad_Q :: "int list"
  ad_edges_Y_index :: "int list"
  ad_penalty :: real
  ad_threshold :: real
  ad_max_iter :: int
  ad_check_frequency :: int

record admm_state =
  var_X :: "real list"
  var_Y :: "real list"
  var_D :: "real list"
  current_SX :: "real list"
  prev_SX :: "real list"
  iter_num :: int
  primal_residual_sqr_norm :: real
  dual_residual_sqr_norm :: real
  optimization_end :: bool

definition update_dual_variables :: "admm_data \<Rightarrow> admm_state \<Rightarrow> admm_state" where
  "update_dual_variables ad s =
     (let cur = gather_SX (ad_n_faces ad) (ad_S ad) (var_X s);
          need_compute_residual_norms =
            ((iter_num s + 1) mod ad_check_frequency ad = 0);
          primal = (if need_compute_residual_norms
                    then vec_squaredNorm (map2 (-) (var_Y s) cur)
                    else primal_residual_sqr_norm s);
          dual = (if need_compute_residual_norms
                  then vec_squaredNorm (map2 (-) cur (prev_SX s))
                         * ad_penalty ad * ad_penalty ad
                  else dual_residual_sqr_norm s);
          D = map2 (+) (var_D s) (map2 (-) (var_Y s) cur);
          iter = iter_num s + 1;
          optimization_converge =
            (need_compute_residual_norms
             \<and> primal \<le> ad_threshold ad \<and> dual \<le> ad_threshold ad)
      in s\<lparr>var_D := D, iter_num := iter,
            primal_residual_sqr_norm := primal, dual_residual_sqr_norm := dual,
            optimization_end := (optimization_converge \<or> iter \<ge> ad_max_iter ad),
            current_SX := prev_SX s, prev_SX := cur\<rparr>)"

definition admm_iteration :: "admm_data \<Rightarrow> admm_state \<Rightarrow> admm_state" where
  "admm_iteration ad s =
     (let s1 = s\<lparr>var_Y := update_Y (ad_n_faces ad) (prev_SX s) (var_D s) (ad_Q ad) (var_Y s)\<rparr>;
          s2 = s1\<lparr>var_X := update_X (ad_n_edges ad) (ad_penalty ad) (ad_edges_Y_index ad)
                              (var_Y s1) (var_D s1) (ad_Z ad) (var_X s1)\<rparr>
      in update_dual_variables ad s2)"

lemma admm_iteration_iter:
  "iter_num (admm_iteration ad s) = iter_num s + 1
   \<and> (\<not> optimization_end (admm_iteration ad s) \<longrightarrow> iter_num s + 1 < ad_max_iter ad)"
  by (simp add: admm_iteration_def update_dual_variables_def Let_def)

function admm_loop :: "admm_data \<Rightarrow> admm_state \<Rightarrow> admm_state" where
  "admm_loop ad s =
     (if optimization_end s then s else admm_loop ad (admm_iteration ad s))"
  by pat_completeness auto
termination
proof (relation "measures [\<lambda>(ad, s). nat (ad_max_iter ad - iter_num s),
                           \<lambda>(ad, s). if optimization_end s then 0 else 1]",
       goal_cases)
  case 1
  then show ?case by simp
next
  case (2 ad s)
  then show ?case
    using admm_iteration_iter[of ad s] admm_iteration_iter[of ad "admm_iteration ad s"]
    by (cases "optimization_end (admm_iteration ad s)") auto
qed

declare admm_loop.simps [simp del]

definition prepare_integrate_geodesic_distance ::
  "surface_mesh \<Rightarrow> parameters \<Rightarrow> bfs_state \<Rightarrow> vec3 list
     \<Rightarrow> (int list \<times> int list) \<times> admm_data \<times> admm_state" where
  \<comment> \<open>Returns \<open>(transition_from_vtx, transition_edge_idx)\<close>, the constant ADMM data and the
      initial ADMM state.\<close>
  "prepare_integrate_geodesic_distance m param bfs init_grad =
     (let (Z, S, Q, edges_Y_index, num_rows) = compute_incidence m init_grad;
          X = init_X (n_edges m) edges_Y_index Z
      in ((compute_transition_from_vtx m (transition_halfedge_idx bfs),
           compute_transition_edge_idx m (transition_halfedge_idx bfs)),
          \<lparr>ad_n_faces = n_faces m, ad_n_edges = n_edges m, ad_Z = Z, ad_S = S, ad_Q = Q,
           ad_edges_Y_index = edges_Y_index, ad_penalty = penalty param,
           ad_threshold = grad_solver_eps param * grad_solver_eps param,
           ad_max_iter = grad_solver_max_iter param,
           ad_check_frequency = grad_solver_convergence_check_frequency param\<rparr>,
          \<lparr>var_X = X, var_Y = replicate (3 * n_faces m) 0,
           var_D = replicate (3 * n_faces m) 0,
           current_SX = replicate (3 * n_faces m) 0,
           prev_SX = gather_SX (n_faces m) S X,
           iter_num = 0, primal_residual_sqr_norm = 0, dual_residual_sqr_norm = 0,
           optimization_end = False\<rparr>))"

definition compute_integrable_gradients :: "admm_data \<Rightarrow> admm_state \<Rightarrow> admm_state" where
  \<comment> \<open>\<open>optimization_end\<close> and \<open>iter_num\<close> are reset, then the loop runs.\<close>
  "compute_integrable_gradients ad s =
     admm_loop ad (s\<lparr>optimization_end := False, iter_num := 0\<rparr>)"

subsection \<open>integrate_geodesic_distance and solve\<close>

definition integrate_vertex ::
  "int list \<Rightarrow> int list \<Rightarrow> int list \<Rightarrow> real list \<Rightarrow> nat \<Rightarrow> real list \<Rightarrow> real list" where
  \<comment> \<open>The body of the loop over the positions of one layer.\<close>
  "integrate_vertex order transition_from_vtx transition_edge_idx X i geod_dist_values =
     (let from_d = geod_dist_values ! nat (transition_from_vtx ! i);
          edge_index = transition_edge_idx ! i
      in if edge_index \<ge> 0
         then geod_dist_values[nat (order ! i) := from_d + X ! nat edge_index]
         else geod_dist_values[nat (order ! i) := from_d - X ! nat (- (edge_index + 1))])"

function integrate_loop ::
  "int list \<Rightarrow> int list \<Rightarrow> int list \<Rightarrow> int list \<Rightarrow> real list \<Rightarrow> nat \<Rightarrow> real list
     \<Rightarrow> fault + real list" where
  \<comment> \<open>\<open>while (!end_propagation)\<close>, entered with \<open>segment_count = 1\<close>.\<close>
  "integrate_loop segment_addr order transition_from_vtx transition_edge_idx X
       segment_count geod_dist_values =
     (if segment_count + 1 \<ge> length segment_addr then Inl Index_Out_Of_Range
      else
        let n_segments = length segment_addr - 1;
            segment_begin_addr = nat (segment_addr ! segment_count);
            segment_end_addr = nat (segment_addr ! (segment_count + 1));
            d = fold (integrate_vertex order transition_from_vtx transition_edge_idx X)
                     [segment_begin_addr..<segment_end_addr] geod_dist_values
        in if segment_count + 1 \<ge> n_segments then Inr d
           else integrate_loop segment_addr order transition_from_vtx transition_edge_idx X
                  (segment_count + 1) d)"
  by pat_completeness auto
termination
  by (relation "measure (\<lambda>(sa, ord, tf, te, X, sc, d). length sa - sc)") auto

declare integrate_loop.simps [simp del]

definition integrate_geodesic_distance ::
  "nat \<Rightarrow> real \<Rightarrow> int list \<Rightarrow> int list \<Rightarrow> int list \<Rightarrow> int list \<Rightarrow> real list
     \<Rightarrow> fault + real list" where
  "integrate_geodesic_distance n model_scaling_factor segment_addr order
       transition_from_vtx transition_edge_idx X =
     (case integrate_loop segment_addr order transition_from_vtx transition_edge_idx X 1
             (replicate n 0) of
        Inl e \<Rightarrow> Inl e
      | Inr d \<Rightarrow> Inr (map (\<lambda>x. x * model_scaling_factor) d))"

definition solve ::
  "bool \<Rightarrow> surface_mesh \<Rightarrow> parameters \<Rightarrow> real list \<Rightarrow> fault + bool \<times> real list" where
  \<comment> \<open>The result is the returned flag and the contents of \<open>geod_dist_values\<close>, which hold
      \<open>geod0\<close> when \<open>solve\<close> is called.\<close>
  "solve read_ok mesh0 para geod0 =
     (if \<not> load_input read_ok mesh0 para then Inr (False, geod0)
      else
        let (m, model_scaling_factor) = normalize_mesh mesh0
        in case init_bfs_paths m para of
             Inl e \<Rightarrow> Inl e
           | Inr bfs \<Rightarrow>
               (case gauss_seidel_init_gradients m para bfs of
                  Inl e \<Rightarrow> Inl e
                | Inr init_grad \<Rightarrow>
                    let ((transition_from_vtx, transition_edge_idx), ad, s0) =
                          prepare_integrate_geodesic_distance m para bfs init_grad;
                        s = compute_integrable_gradients ad s0
                    in case integrate_geodesic_distance (n_vertices m) model_scaling_factor
                              (bfs_segment_addr_vec bfs) (bfs_vertex_list bfs)
                              transition_from_vtx transition_edge_idx (var_X s) of
                         Inl e \<Rightarrow> Inl e
                       | Inr d \<Rightarrow> Inr (True, d)))"

subsection \<open>Mesh conditions and example meshes\<close>

definition neighbours :: "surface_mesh \<Rightarrow> nat \<Rightarrow> nat list" where
  \<comment> \<open>The destinations the traversal sees when it circulates around \<open>v\<close>.\<close>
  "neighbours m v = map (to_vertex m) (halfedges_v m v)"

inductive_set reachable :: "(nat \<Rightarrow> nat list) \<Rightarrow> nat set \<Rightarrow> nat set"
  for nb :: "nat \<Rightarrow> nat list" and A :: "nat set" where
  source: "v \<in> A \<Longrightarrow> v \<in> reachable nb A"
| step: "u \<in> reachable nb A \<Longrightarrow> v \<in> set (nb u) \<Longrightarrow> v \<in> reachable nb A"

definition connected :: "surface_mesh \<Rightarrow> bool" where
  "connected m \<longleftrightarrow>
     (\<forall>u < n_vertices m. \<forall>v < n_vertices m. v \<in> reachable (neighbours m) {u})"

definition rings_ok :: "surface_mesh \<Rightarrow> bool" where
  \<comment> \<open>Every halfedge of a vertex ring leaves that vertex and ends at a vertex of the mesh.\<close>
  "rings_ok m \<longleftrightarrow>
     (\<forall>v < n_vertices m. \<forall>h \<in> set (halfedges_v m v).
        to_vertex m h < n_vertices m \<and> from_vertex m h = v)"

definition valences_ok :: "surface_mesh \<Rightarrow> bool" where
  \<comment> \<open>The valence is the length of the ring, and the rings hold the \<open>2 |E|\<close> halfedges.\<close>
  "valences_ok m \<longleftrightarrow>
     (\<forall>v < n_vertices m. valence m v = length (halfedges_v m v))
     \<and> sum_list (map (valence m) [0..<n_vertices m]) = 2 * n_edges m"

definition sources_ok :: "surface_mesh \<Rightarrow> parameters \<Rightarrow> bool" where
  \<comment> \<open>Distinct source indices in \<open>[0, n_v)\<close>.\<close>
  "sources_ok m param \<longleftrightarrow>
     distinct (source_vertices param)
     \<and> (\<forall>s \<in> set (source_vertices param). 0 \<le> s \<and> s < int (n_vertices m))"

definition sources_in_range :: "surface_mesh \<Rightarrow> parameters \<Rightarrow> bool" where
  "sources_in_range m param \<longleftrightarrow>
     (\<forall>s \<in> set (source_vertices param). 0 \<le> s \<and> s < int (n_vertices m))"

definition face_corners :: "surface_mesh \<Rightarrow> nat list" where
  \<comment> \<open>The halfedges of all faces, in the order the loops over faces and corners visit them.\<close>
  "face_corners m = concat (map (halfedges_f m) [0..<n_faces m])"

definition faces_ok :: "surface_mesh \<Rightarrow> bool" where
  \<comment> \<open>Every face is a triangle and no halfedge bounds two faces or one face twice.\<close>
  "faces_ok m \<longleftrightarrow>
     (\<forall>f < n_faces m. length (halfedges_f m f) = 3)
     \<and> distinct (face_corners m)
     \<and> (\<forall>h \<in> set (face_corners m). h < n_halfedges m)"

definition edges_ok :: "surface_mesh \<Rightarrow> bool" where
  \<comment> \<open>Every edge belongs to one or two faces.\<close>
  "edges_ok m \<longleftrightarrow>
     (\<forall>h \<in> set (face_corners m). edge m h < n_edges m)
     \<and> (\<forall>e < n_edges m.
          1 \<le> length (filter (\<lambda>h. edge m h = e) (face_corners m))
          \<and> length (filter (\<lambda>h. edge m h = e) (face_corners m)) \<le> 2)"

definition triangle_mesh :: surface_mesh where
  \<comment> \<open>One triangle on the vertices \<open>(0,0,0)\<close>, \<open>(1,0,0)\<close>, \<open>(0,1,0)\<close>; edge \<open>e\<close> has the
      halfedges \<open>2 e\<close> and \<open>2 e + 1\<close>.\<close>
  "triangle_mesh =
     \<lparr>n_vertices = 3, n_faces = 1, n_edges = 3, n_halfedges = 6,
      position = (\<lambda>v. [(0, 0, 0), (1, 0, 0), (0, 1, 0)] ! v),
      to_vertex = (\<lambda>h. [1, 0, 2, 1, 0, 2] ! h),
      from_vertex = (\<lambda>h. [0, 1, 1, 2, 2, 0] ! h),
      edge = (\<lambda>h. h div 2),
      halfedge = (\<lambda>e i. 2 * e + i),
      opposite_halfedge = (\<lambda>h. if even h then h + 1 else h - 1),
      valence = (\<lambda>v. 2),
      halfedges_v = (\<lambda>v. [[0, 5], [2, 1], [4, 3]] ! v),
      halfedges_f = (\<lambda>f. [0, 2, 4]),
      faces_v = (\<lambda>v. [0])\<rparr>"

definition two_triangles :: surface_mesh where
  \<comment> \<open>Two triangles that share nothing: the vertices 0, 1, 2 and 3, 4, 5.\<close>
  "two_triangles =
     \<lparr>n_vertices = 6, n_faces = 2, n_edges = 6, n_halfedges = 12,
      position = (\<lambda>v. [(0, 0, 0), (1, 0, 0), (0, 1, 0), (0, 0, 1), (1, 0, 1), (0, 1, 1)] ! v),
      to_vertex = (\<lambda>h. [1, 0, 2, 1, 0, 2, 4, 3, 5, 4, 3, 5] ! h),
      from_vertex = (\<lambda>h. [0, 1, 1, 2, 2, 0, 3, 4, 4, 5, 5, 3] ! h),
      edge = (\<lambda>h. h div 2),
      halfedge = (\<lambda>e i. 2 * e + i),
      opposite_halfedge = (\<lambda>h. if even h then h + 1 else h - 1),
      valence = (\<lambda>v. 2),
      halfedges_v = (\<lambda>v. [[0, 5], [2, 1], [4, 3], [6, 11], [8, 7], [10, 9]] ! v),
      halfedges_f = (\<lambda>f. [[0, 2, 4], [6, 8, 10]] ! f),
      faces_v = (\<lambda>v. [v div 3])\<rparr>"

definition default_parameters :: "int list \<Rightarrow> parameters" where
  \<comment> \<open>The defaults of the parameter record with the given sources.\<close>
  "default_parameters srcs =
     \<lparr>source_vertices = srcs, heat_solver_eps = 1 / 10 ^ 6, heat_solver_max_iter = 1000,
      heat_solver_convergence_check_frequency = 10, grad_solver_eps = 1 / 10 ^ 5,
      grad_solver_max_iter = 10000, grad_solver_convergence_check_frequency = 10,
      grad_solver_output_frequency = 100, penalty = 1\<rparr>"

subsection \<open>Invariants of the breadth-first traversal\<close>

text \<open>
  \<open>placed s\<close> is the part of \<open>bfs_vertex_list\<close> written so far; \<open>bfs_place\<close> is the state
  change of the traversal when it meets an unvisited vertex.
\<close>

definition placed :: "bfs_state \<Rightarrow> int list" where
  "placed s = take (bfs_id s) (bfs_vertex_list s)"

definition bfs_place :: "surface_mesh \<Rightarrow> nat \<Rightarrow> bfs_state \<Rightarrow> bfs_state" where
  "bfs_place m heh s =
     s\<lparr>next_front := next_front s @ [to_vertex m heh],
       bfs_vertex_list := (bfs_vertex_list s)[bfs_id s := int (to_vertex m heh)],
       bfs_laplacian_coef_addr := (bfs_laplacian_coef_addr s)
          [bfs_id s + 1 := bfs_laplacian_coef_addr s ! bfs_id s
             + int (valence m (to_vertex m heh)) + 1],
       transition_halfedge_idx := (transition_halfedge_idx s)[bfs_id s := int heh],
       bfs_id := bfs_id s + 1,
       visited := (visited s)[to_vertex m heh := True]\<rparr>"

definition inv_shape :: "surface_mesh \<Rightarrow> bfs_state \<Rightarrow> bool" where
  "inv_shape m s \<longleftrightarrow>
     length (bfs_vertex_list s) = n_vertices m
   \<and> length (transition_halfedge_idx s) = n_vertices m
   \<and> length (bfs_laplacian_coef_addr s) = n_vertices m + 1
   \<and> length (visited s) = n_vertices m
   \<and> bfs_id s \<le> n_vertices m
   \<and> (\<forall>x \<in> set (placed s). 0 \<le> x \<and> x < int (n_vertices m))
   \<and> distinct (placed s)
   \<and> (\<forall>i. bfs_id s \<le> i \<longrightarrow> i < n_vertices m \<longrightarrow>
          bfs_vertex_list s ! i = - 1 \<and> transition_halfedge_idx s ! i = - 1)
   \<and> (\<forall>v < n_vertices m. visited s ! v \<longleftrightarrow> int v \<in> set (placed s))"

definition bfs_put :: "surface_mesh \<Rightarrow> nat \<Rightarrow> bfs_state \<Rightarrow> bfs_state \<Rightarrow> bool" where
  "bfs_put m v s s' \<longleftrightarrow>
     bfs_vertex_list s' = (bfs_vertex_list s)[bfs_id s := int v]
   \<and> bfs_id s' = bfs_id s + 1
   \<and> visited s' = (visited s)[v := True]
   \<and> bfs_laplacian_coef_addr s' = (bfs_laplacian_coef_addr s)
        [bfs_id s + 1 := bfs_laplacian_coef_addr s ! bfs_id s + int (valence m v) + 1]
   \<and> length (transition_halfedge_idx s') = length (transition_halfedge_idx s)
   \<and> (\<forall>i. i \<noteq> bfs_id s \<longrightarrow> transition_halfedge_idx s' ! i = transition_halfedge_idx s ! i)"

definition inv_addr :: "surface_mesh \<Rightarrow> bfs_state \<Rightarrow> bool" where
  "inv_addr m s \<longleftrightarrow>
     bfs_laplacian_coef_addr s ! 0 = 0
   \<and> (\<forall>i < bfs_id s. bfs_laplacian_coef_addr s ! (i + 1) =
          bfs_laplacian_coef_addr s ! i + int (valence m (nat (bfs_vertex_list s ! i))) + 1)"

definition inv_tree :: "surface_mesh \<Rightarrow> int list \<Rightarrow> bfs_state \<Rightarrow> bool" where
  "inv_tree m srcs s \<longleftrightarrow>
     (\<forall>i. i < length srcs \<longrightarrow> i < bfs_id s \<longrightarrow> bfs_vertex_list s ! i = srcs ! i)
   \<and> (\<forall>i. i < length srcs \<longrightarrow> i < n_vertices m \<longrightarrow> transition_halfedge_idx s ! i = - 1)
   \<and> (\<forall>i. length srcs \<le> i \<longrightarrow> i < bfs_id s \<longrightarrow>
         (\<exists>h. transition_halfedge_idx s ! i = int h
             \<and> int (to_vertex m h) = bfs_vertex_list s ! i
             \<and> (\<exists>j < i. bfs_vertex_list s ! j = int (from_vertex m h))))
   \<and> (\<forall>x \<in> set (placed s). nat x \<in> reachable (neighbours m) (nat ` set srcs))"

definition bfs_invs :: "surface_mesh \<Rightarrow> int list \<Rightarrow> bfs_state \<Rightarrow> bool" where
  "bfs_invs m srcs s \<longleftrightarrow>
     inv_shape m s \<and> inv_addr m s \<and> inv_tree m srcs s \<and> length srcs \<le> bfs_id s"

definition bfs_rel :: "bfs_state \<Rightarrow> bfs_state \<Rightarrow> bool" where
  "bfs_rel s s' \<longleftrightarrow>
     bfs_segment_addr_vec s' = bfs_segment_addr_vec s
   \<and> (\<exists>new. next_front s' = next_front s @ new \<and> placed s' = placed s @ map int new)"

definition seg_inv :: "int list \<Rightarrow> bfs_state \<Rightarrow> bool" where
  "seg_inv srcs s \<longleftrightarrow>
     2 \<le> length (bfs_segment_addr_vec s)
   \<and> bfs_segment_addr_vec s ! 0 = 0
   \<and> bfs_segment_addr_vec s ! 1 = int (length srcs)
   \<and> sorted (bfs_segment_addr_vec s)
   \<and> last (bfs_segment_addr_vec s) = int (bfs_id s)"

definition closed_except :: "surface_mesh \<Rightarrow> bfs_state \<Rightarrow> nat set \<Rightarrow> bool" where
  "closed_except m s F \<longleftrightarrow>
     (\<forall>u < n_vertices m. int u \<in> set (placed s) \<longrightarrow> u \<notin> F \<longrightarrow>
        (\<forall>h \<in> set (halfedges_v m u). int (to_vertex m h) \<in> set (placed s)))"

subsection \<open>Auxiliary definitions for the ADMM updates\<close>

definition projected :: "real list \<Rightarrow> real list \<Rightarrow> int list \<Rightarrow> nat \<Rightarrow> vec3" where
  "projected SXp D Q i =
     (let y = (SXp ! (3 * i) - D ! (3 * i),
               SXp ! (3 * i + 1) - D ! (3 * i + 1),
               SXp ! (3 * i + 2) - D ! (3 * i + 2));
          q = (real_of_int (Q ! (3 * i)), real_of_int (Q ! (3 * i + 1)),
               real_of_int (Q ! (3 * i + 2)))
      in vsub y (vscale (1 / 3 * dot q y) q))"

subsection \<open>Outer iterations of the heat solver\<close>

definition gs_sweep :: "heat_system \<Rightarrow> real list \<Rightarrow> real list" where
  \<comment> \<open>One outer iteration: the layers \<open>0, ..., n_segments - 1\<close> in order.\<close>
  "gs_sweep hs d = fold (gs_update_segment hs) [0..<length (hs_segment_addr hs) - 1] d"

definition heat_after :: "heat_system \<Rightarrow> nat \<Rightarrow> real list \<Rightarrow> real list" where
  \<comment> \<open>The heat vector after \<open>k\<close> outer iterations.\<close>
  "heat_after hs k d = (gs_sweep hs ^^ k) d"

definition heat_converged_at :: "heat_system \<Rightarrow> real list \<Rightarrow> int \<Rightarrow> bool" where
  \<comment> \<open>The outer-iteration count \<open>k\<close> is a multiple of the check frequency and the residual
      norm after \<open>k\<close> outer iterations is at most the threshold.\<close>
  "heat_converged_at hs d0 k \<longleftrightarrow>
     k mod hs_check_frequency hs = 0
     \<and> heat_residual_norm hs (heat_after hs (nat k) d0) \<le> hs_eps hs"

definition gs_stops_at :: "heat_system \<Rightarrow> int \<Rightarrow> real list \<Rightarrow> int \<Rightarrow> bool" where
  \<comment> \<open>Started with \<open>it\<close> completed outer iterations and heat vector \<open>d\<close>, the loop stops
      with \<open>K\<close> completed outer iterations: \<open>K\<close> is the first count after \<open>it\<close> that reaches
      the maximum or passes the residual test.\<close>
  "gs_stops_at hs it d K \<longleftrightarrow>
     it < K \<and> K \<le> hs_max_iter hs
     \<and> (\<forall>k. it < k \<and> k < K \<longrightarrow>
           \<not> (k mod hs_check_frequency hs = 0
               \<and> heat_residual_norm hs (heat_after hs (nat (k - it)) d) \<le> hs_eps hs))
     \<and> (K < hs_max_iter hs \<longrightarrow>
           K mod hs_check_frequency hs = 0
           \<and> heat_residual_norm hs (heat_after hs (nat (K - it)) d) \<le> hs_eps hs)"

subsection \<open>The heat system of the example triangle\<close>

definition triangle_bfs_state :: bfs_state where
  \<comment> \<open>The result of the traversal on the single triangle with source 0.\<close>
  "triangle_bfs_state =
     \<lparr>bfs_vertex_list = [0, 1, 2], transition_halfedge_idx = [- 1, 0, 5],
      bfs_laplacian_coef_addr = [0, 3, 6, 9], bfs_segment_addr_vec = [0, 1, 3, 3],
      visited = [True, True, True], next_front = [], bfs_id = 3\<rparr>"

definition triangle_heat_system :: heat_system where
  \<comment> \<open>The heat system of the single triangle with source 0 and the default parameters.\<close>
  "triangle_heat_system =
     make_heat_system triangle_mesh (default_parameters [0]) triangle_bfs_state
       (fst (projr (compute_laplacian triangle_mesh triangle_bfs_state)))
       (snd (projr (compute_laplacian triangle_mesh triangle_bfs_state)))"

subsection \<open>Registration of the face corners with their edges\<close>

definition register_slot :: "nat \<times> nat \<Rightarrow> int list \<times> nat list \<Rightarrow> int list \<times> nat list" where
  \<comment> \<open>What one corner does to \<open>(edges_Y_index, num_rows)\<close>: the pair is the slot
      \<open>3 i + k\<close> and the edge index.\<close>
  "register_slot = (\<lambda>(slot, e) (EY, NR). (EY[2 * e + NR ! e := int slot], NR[e := NR ! e + 1]))"

definition slots_of :: "nat \<Rightarrow> (nat \<times> nat) list \<Rightarrow> nat list" where
  "slots_of e cs = map fst (filter (\<lambda>(s, e'). e' = e) cs)"

definition corner_slots :: "surface_mesh \<Rightarrow> (nat \<times> nat) list" where
  "corner_slots m =
     concat (map (\<lambda>i. map (\<lambda>(k, h). (3 * i + k, edge m h)) (enumerate 0 (halfedges_f m i)))
                 [0..<n_faces m])"

definition incidence_slots :: "incidence \<Rightarrow> int list \<times> nat list" where
  "incidence_slots = (\<lambda>(Z, S, Q, EY, NR). (EY, NR))"

definition slots_inv :: "nat \<Rightarrow> (nat \<times> nat) list \<Rightarrow> int list \<times> nat list \<Rightarrow> bool" where
  "slots_inv n ps = (\<lambda>(EY, NR). length EY = 2 * n \<and> length NR = n \<and>
     (\<forall>e<n. NR ! e = length (slots_of e ps) \<and>
        (\<forall>j<2. EY ! (2 * e + j) =
           (if j < length (slots_of e ps) then int (slots_of e ps ! j) else - 1))))"

definition triangle_admm_data :: admm_data where
  "triangle_admm_data =
     fst (snd (prepare_integrate_geodesic_distance triangle_mesh (default_parameters [0])
                 triangle_bfs_state [(1, 2, 3)]))"

definition triangle_admm_state :: admm_state where
  "triangle_admm_state =
     snd (snd (prepare_integrate_geodesic_distance triangle_mesh (default_parameters [0])
                 triangle_bfs_state [(1, 2, 3)]))"

section \<open>Properties of the breadth-first traversal\<close>

lemma bfs_visit_eq:
  "bfs_visit m heh s =
     (if to_vertex m heh \<ge> length (visited s) then Inl Index_Out_Of_Range
      else if visited s ! to_vertex m heh then Inr s
      else if bfs_id s \<ge> length (bfs_vertex_list s)
              \<or> bfs_id s + 1 \<ge> length (bfs_laplacian_coef_addr s)
              \<or> bfs_id s \<ge> length (transition_halfedge_idx s)
           then Inl Index_Out_Of_Range
           else Inr (bfs_place m heh s))"
proof (cases "visited s ! to_vertex m heh")
  case True
  then have "(visited s)[to_vertex m heh := True] = visited s"
    using list_update_id[of "visited s" "to_vertex m heh"] by simp
  then have "s\<lparr>visited := (visited s)[to_vertex m heh := True]\<rparr> = s"
    by simp
  with True show ?thesis
    by (simp add: bfs_visit_def Let_def)
next
  case False
  then show ?thesis
    by (simp add: bfs_visit_def bfs_place_def Let_def)
qed

lemma distinct_bounded_length:
  assumes "distinct (xs :: int list)" "\<forall>x \<in> set xs. 0 \<le> x \<and> x < int n"
  shows "length xs \<le> n"
proof -
  have "set xs \<subseteq> int ` {..<n}"
  proof
    fix x assume "x \<in> set xs"
    with assms(2) have "0 \<le> x" "x < int n" by auto
    then have "nat x < n" "x = int (nat x)" by auto
    then show "x \<in> int ` {..<n}" by blast
  qed
  then have "card (set xs) \<le> card (int ` {..<n})"
    by (intro card_mono) auto
  also have "\<dots> \<le> n" by (metis card_image_le card_lessThan finite_lessThan)
  finally show ?thesis using assms(1) by (simp add: distinct_card)
qed

lemma inv_shape_room:
  assumes "inv_shape m s" "v < n_vertices m" "\<not> visited s ! v"
  shows "bfs_id s < n_vertices m"
proof -
  from assms have nin: "int v \<notin> set (placed s)" by (auto simp: inv_shape_def)
  have "distinct (int v # placed s)" using assms(1) nin by (simp add: inv_shape_def)
  moreover have "\<forall>x \<in> set (int v # placed s). 0 \<le> x \<and> x < int (n_vertices m)"
    using assms by (auto simp: inv_shape_def)
  ultimately have "length (int v # placed s) \<le> n_vertices m"
    by (rule distinct_bounded_length)
  moreover have "length (placed s) = bfs_id s"
    using assms(1) by (simp add: placed_def inv_shape_def)
  ultimately show ?thesis by simp
qed

lemma placed_put:
  assumes "inv_shape m s" "bfs_put m v s s'" "bfs_id s < n_vertices m"
  shows "placed s' = placed s @ [int v]"
  using assms
  by (simp add: placed_def bfs_put_def inv_shape_def take_Suc_conv_app_nth)

lemma inv_shape_put:
  assumes "inv_shape m s" "bfs_put m v s s'" "v < n_vertices m" "\<not> visited s ! v"
  shows "inv_shape m s'"
proof -
  have room: "bfs_id s < n_vertices m" using assms inv_shape_room by blast
  have pl: "placed s' = placed s @ [int v]" using placed_put[OF assms(1,2) room] .
  have nin: "int v \<notin> set (placed s)" using assms by (auto simp: inv_shape_def)
  have len: "length (bfs_vertex_list s) = n_vertices m" "length (visited s) = n_vertices m"
    using assms(1) by (auto simp: inv_shape_def)
  have v1: "visited s' = (visited s)[v := True]" using assms(2) by (simp add: bfs_put_def)
  have vis: "\<forall>u < n_vertices m. visited s' ! u \<longleftrightarrow> int u \<in> set (placed s')"
  proof (intro allI impI)
    fix u assume u: "u < n_vertices m"
    have "visited s' ! u = (if u = v then True else visited s ! u)"
      using v1 len u by (simp add: nth_list_update)
    moreover have "visited s ! u \<longleftrightarrow> int u \<in> set (placed s)"
      using assms(1) u by (simp add: inv_shape_def)
    ultimately show "visited s' ! u \<longleftrightarrow> int u \<in> set (placed s')"
      using pl by auto
  qed
  have tail: "\<forall>i. bfs_id s' \<le> i \<longrightarrow> i < n_vertices m \<longrightarrow>
          bfs_vertex_list s' ! i = - 1 \<and> transition_halfedge_idx s' ! i = - 1"
  proof (intro allI impI)
    fix i assume i: "bfs_id s' \<le> i" "i < n_vertices m"
    then have "bfs_id s < i" using assms(2) by (simp add: bfs_put_def)
    then have "bfs_vertex_list s' ! i = bfs_vertex_list s ! i"
      "transition_halfedge_idx s' ! i = transition_halfedge_idx s ! i"
      using assms(2) by (auto simp: bfs_put_def)
    moreover have "bfs_vertex_list s ! i = - 1 \<and> transition_halfedge_idx s ! i = - 1"
      using assms(1) i \<open>bfs_id s < i\<close> by (simp add: inv_shape_def)
    ultimately show "bfs_vertex_list s' ! i = - 1 \<and> transition_halfedge_idx s' ! i = - 1"
      by simp
  qed
  have rng: "\<forall>x \<in> set (placed s'). 0 \<le> x \<and> x < int (n_vertices m)"
    using assms(1,3) pl by (auto simp: inv_shape_def)
  have dist: "distinct (placed s')" using assms(1) pl nin by (simp add: inv_shape_def)
  have lens: "length (bfs_vertex_list s') = n_vertices m"
    "length (transition_halfedge_idx s') = n_vertices m"
    "length (bfs_laplacian_coef_addr s') = n_vertices m + 1"
    "length (visited s') = n_vertices m" "bfs_id s' \<le> n_vertices m"
    using assms(1,2) room by (auto simp: inv_shape_def bfs_put_def)
  show ?thesis
    unfolding inv_shape_def using lens rng dist tail vis by blast
qed

lemma inv_addr_put:
  assumes "inv_shape m s" "inv_addr m s" "bfs_put m v s s'" "bfs_id s < n_vertices m"
  shows "inv_addr m s'"
proof -
  let ?a = "bfs_laplacian_coef_addr s" and ?k = "bfs_id s"
  have la: "length ?a = n_vertices m + 1" and lo: "length (bfs_vertex_list s) = n_vertices m"
    using assms(1) by (auto simp: inv_shape_def)
  have a': "bfs_laplacian_coef_addr s' = ?a[?k + 1 := ?a ! ?k + int (valence m v) + 1]"
    and o': "bfs_vertex_list s' = (bfs_vertex_list s)[?k := int v]"
    and k': "bfs_id s' = ?k + 1"
    using assms(3) by (auto simp: bfs_put_def)
  have z: "bfs_laplacian_coef_addr s' ! 0 = 0"
    using assms(2) a' by (simp add: inv_addr_def)
  have "\<forall>i < bfs_id s'. bfs_laplacian_coef_addr s' ! (i + 1) =
          bfs_laplacian_coef_addr s' ! i + int (valence m (nat (bfs_vertex_list s' ! i))) + 1"
  proof (intro allI impI)
    fix i assume "i < bfs_id s'"
    then consider "i < ?k" | "i = ?k" using k' by linarith
    then show "bfs_laplacian_coef_addr s' ! (i + 1) =
          bfs_laplacian_coef_addr s' ! i + int (valence m (nat (bfs_vertex_list s' ! i))) + 1"
    proof cases
      case 1
      then have "bfs_laplacian_coef_addr s' ! (i + 1) = ?a ! (i + 1)"
        "bfs_laplacian_coef_addr s' ! i = ?a ! i"
        "bfs_vertex_list s' ! i = bfs_vertex_list s ! i"
        using a' o' by auto
      then show ?thesis using assms(2) 1 by (simp add: inv_addr_def)
    next
      case 2
      then have "bfs_laplacian_coef_addr s' ! (i + 1) = ?a ! ?k + int (valence m v) + 1"
        "bfs_laplacian_coef_addr s' ! i = ?a ! i"
        "bfs_vertex_list s' ! i = int v"
        using a' o' la lo assms(4) by auto
      then show ?thesis using 2 by simp
    qed
  qed
  with z show ?thesis by (simp add: inv_addr_def)
qed

lemma in_placed_conv:
  assumes "inv_shape m s"
  shows "x \<in> set (placed s) \<longleftrightarrow> (\<exists>j < bfs_id s. bfs_vertex_list s ! j = x)"
proof -
  have "length (placed s) = bfs_id s"
    using assms by (simp add: placed_def inv_shape_def)
  moreover have "\<forall>j < bfs_id s. placed s ! j = bfs_vertex_list s ! j"
    by (simp add: placed_def)
  ultimately show ?thesis
    by (metis in_set_conv_nth)
qed

lemma inv_tree_place:
  assumes sh: "inv_shape m s" and tr: "inv_tree m srcs s" and ro: "rings_ok m"
    and ns: "length srcs \<le> bfs_id s" and room: "bfs_id s < n_vertices m"
    and u: "u < n_vertices m" "int u \<in> set (placed s)" and h: "h \<in> set (halfedges_v m u)"
  shows "inv_tree m srcs (bfs_place m h s)"
proof -
  let ?s' = "bfs_place m h s" and ?k = "bfs_id s"
  have lo: "length (bfs_vertex_list s) = n_vertices m"
    and lt: "length (transition_halfedge_idx s) = n_vertices m"
    using sh by (auto simp: inv_shape_def)
  have o': "bfs_vertex_list ?s' = (bfs_vertex_list s)[?k := int (to_vertex m h)]"
    and t': "transition_halfedge_idx ?s' = (transition_halfedge_idx s)[?k := int h]"
    and k': "bfs_id ?s' = ?k + 1"
    by (auto simp: bfs_place_def)
  have put: "bfs_put m (to_vertex m h) s ?s'"
    by (simp add: bfs_put_def bfs_place_def)
  have pl: "placed ?s' = placed s @ [int (to_vertex m h)]"
    using placed_put[OF sh put room] .
  have fr: "from_vertex m h = u" using ro u(1) h by (auto simp: rings_ok_def)
  obtain j where j: "j < ?k" "bfs_vertex_list s ! j = int u"
    using u(2) in_placed_conv[OF sh] by blast
  have c1: "\<forall>i. i < length srcs \<longrightarrow> i < bfs_id ?s' \<longrightarrow> bfs_vertex_list ?s' ! i = srcs ! i"
    using tr ns o' by (auto simp: inv_tree_def)
  have c2: "\<forall>i. i < length srcs \<longrightarrow> i < n_vertices m \<longrightarrow> transition_halfedge_idx ?s' ! i = - 1"
    using tr ns t' by (auto simp: inv_tree_def)
  have c3: "\<forall>i. length srcs \<le> i \<longrightarrow> i < bfs_id ?s' \<longrightarrow>
         (\<exists>h'. transition_halfedge_idx ?s' ! i = int h'
             \<and> int (to_vertex m h') = bfs_vertex_list ?s' ! i
             \<and> (\<exists>j < i. bfs_vertex_list ?s' ! j = int (from_vertex m h')))"
  proof (intro allI impI)
    fix i assume i: "length srcs \<le> i" "i < bfs_id ?s'"
    then consider "i < ?k" | "i = ?k" using k' by linarith
    then show "\<exists>h'. transition_halfedge_idx ?s' ! i = int h'
             \<and> int (to_vertex m h') = bfs_vertex_list ?s' ! i
             \<and> (\<exists>j < i. bfs_vertex_list ?s' ! j = int (from_vertex m h'))"
    proof cases
      case 1
      with tr i(1) obtain h' j' where hj: "transition_halfedge_idx s ! i = int h'"
        "int (to_vertex m h') = bfs_vertex_list s ! i" "j' < i"
        "bfs_vertex_list s ! j' = int (from_vertex m h')"
        unfolding inv_tree_def by blast
      have "transition_halfedge_idx ?s' ! i = int h'"
        "bfs_vertex_list ?s' ! i = bfs_vertex_list s ! i"
        "bfs_vertex_list ?s' ! j' = bfs_vertex_list s ! j'"
        using 1 hj t' o' by auto
      with hj show ?thesis by metis
    next
      case 2
      have "transition_halfedge_idx ?s' ! i = int h"
        "bfs_vertex_list ?s' ! i = int (to_vertex m h)"
        "bfs_vertex_list ?s' ! j = int (from_vertex m h)"
        using 2 t' o' lo lt room j fr by auto
      with j(1) 2 show ?thesis by metis
    qed
  qed
  have "nat (int u) \<in> reachable (neighbours m) (nat ` set srcs)"
    using tr u(2) unfolding inv_tree_def by blast
  then have "to_vertex m h \<in> reachable (neighbours m) (nat ` set srcs)"
    using h by (auto intro: reachable.step simp: neighbours_def)
  then have c4: "\<forall>x \<in> set (placed ?s'). nat x \<in> reachable (neighbours m) (nat ` set srcs)"
    using tr pl by (auto simp: inv_tree_def)
  show ?thesis unfolding inv_tree_def using c1 c2 c3 c4 by blast
qed

lemma bfs_rel_refl: "bfs_rel s s"
  by (simp add: bfs_rel_def)

lemma bfs_rel_trans: "bfs_rel s s' \<Longrightarrow> bfs_rel s' s'' \<Longrightarrow> bfs_rel s s''"
  by (auto simp: bfs_rel_def)

lemma bfs_rel_placed: "bfs_rel s s' \<Longrightarrow> x \<in> set (placed s) \<Longrightarrow> x \<in> set (placed s')"
  by (auto simp: bfs_rel_def)

lemma bfs_visit_inv:
  assumes inv: "bfs_invs m srcs s" and ro: "rings_ok m"
    and u: "u < n_vertices m" "int u \<in> set (placed s)" and h: "h \<in> set (halfedges_v m u)"
  shows "\<exists>s'. bfs_visit m h s = Inr s' \<and> bfs_invs m srcs s' \<and> bfs_rel s s'
              \<and> int (to_vertex m h) \<in> set (placed s')"
proof -
  let ?v = "to_vertex m h"
  have sh: "inv_shape m s" and ad: "inv_addr m s" and tr: "inv_tree m srcs s"
    and ns: "length srcs \<le> bfs_id s"
    using inv by (auto simp: bfs_invs_def)
  have v: "?v < n_vertices m" using ro u(1) h by (auto simp: rings_ok_def)
  have lens: "length (visited s) = n_vertices m" "length (bfs_vertex_list s) = n_vertices m"
    "length (transition_halfedge_idx s) = n_vertices m"
    "length (bfs_laplacian_coef_addr s) = n_vertices m + 1"
    using sh by (auto simp: inv_shape_def)
  show ?thesis
  proof (cases "visited s ! ?v")
    case True
    then have "bfs_visit m h s = Inr s"
      using v lens by (simp add: bfs_visit_eq)
    moreover have "int ?v \<in> set (placed s)"
      using sh v True by (simp add: inv_shape_def)
    ultimately show ?thesis using inv bfs_rel_refl by blast
  next
    case False
    have room: "bfs_id s < n_vertices m" using inv_shape_room[OF sh v False] .
    let ?s' = "bfs_place m h s"
    have eq: "bfs_visit m h s = Inr ?s'"
      using v lens False room by (simp add: bfs_visit_eq)
    have put: "bfs_put m ?v s ?s'"
      by (simp add: bfs_put_def bfs_place_def)
    have pl: "placed ?s' = placed s @ [int ?v]"
      using placed_put[OF sh put room] .
    have i1: "inv_shape m ?s'" using inv_shape_put[OF sh put v False] .
    have i2: "inv_addr m ?s'" using inv_addr_put[OF sh ad put room] .
    have i3: "inv_tree m srcs ?s'" using inv_tree_place[OF sh tr ro ns room u h] .
    have i4: "length srcs \<le> bfs_id ?s'" using ns by (simp add: bfs_place_def)
    have "next_front ?s' = next_front s @ [?v]"
      "bfs_segment_addr_vec ?s' = bfs_segment_addr_vec s"
      by (auto simp: bfs_place_def)
    with pl have rel: "bfs_rel s ?s'" by (simp add: bfs_rel_def)
    show ?thesis using eq i1 i2 i3 i4 rel pl by (auto simp: bfs_invs_def)
  qed
qed

lemma bfs_ring_inv:
  assumes "bfs_invs m srcs s" "rings_ok m" "u < n_vertices m" "int u \<in> set (placed s)"
    "set hs \<subseteq> set (halfedges_v m u)"
  shows "\<exists>s'. foldM (bfs_visit m) hs s = Inr s' \<and> bfs_invs m srcs s' \<and> bfs_rel s s'
              \<and> (\<forall>h \<in> set hs. int (to_vertex m h) \<in> set (placed s'))"
  using assms
proof (induction hs arbitrary: s)
  case Nil
  then show ?case by (simp add: bfs_rel_refl)
next
  case (Cons h hs)
  from Cons.prems have h: "h \<in> set (halfedges_v m u)" by simp
  from bfs_visit_inv[OF Cons.prems(1,2,3,4) h] obtain s1 where
    s1: "bfs_visit m h s = Inr s1" "bfs_invs m srcs s1" "bfs_rel s s1"
        "int (to_vertex m h) \<in> set (placed s1)"
    by blast
  have u1: "int u \<in> set (placed s1)" using bfs_rel_placed[OF s1(3) Cons.prems(4)] .
  from Cons.prems have sub: "set hs \<subseteq> set (halfedges_v m u)" by simp
  from Cons.IH[OF s1(2) Cons.prems(2,3) u1 sub] obtain s2 where
    s2: "foldM (bfs_visit m) hs s1 = Inr s2" "bfs_invs m srcs s2" "bfs_rel s1 s2"
        "\<forall>h \<in> set hs. int (to_vertex m h) \<in> set (placed s2)"
    by blast
  have "foldM (bfs_visit m) (h # hs) s = Inr s2" using s1(1) s2(1) by simp
  moreover have "bfs_rel s s2" using bfs_rel_trans[OF s1(3) s2(3)] .
  moreover have "int (to_vertex m h) \<in> set (placed s2)"
    using bfs_rel_placed[OF s2(3) s1(4)] .
  ultimately show ?case using s2(2,4) by auto
qed

lemma bfs_expand_inv:
  assumes "bfs_invs m srcs s" "rings_ok m"
    "\<forall>u \<in> set front. u < n_vertices m \<and> int u \<in> set (placed s)"
  shows "\<exists>s'. bfs_expand m front s = Inr s' \<and> bfs_invs m srcs s' \<and> bfs_rel s s'
              \<and> (\<forall>u \<in> set front. \<forall>h \<in> set (halfedges_v m u).
                    int (to_vertex m h) \<in> set (placed s'))"
  using assms unfolding bfs_expand_def
proof (induction front arbitrary: s)
  case Nil
  then show ?case by (simp add: bfs_rel_refl)
next
  case (Cons u front)
  from Cons.prems(3) have u: "u < n_vertices m" "int u \<in> set (placed s)" by auto
  from bfs_ring_inv[OF Cons.prems(1,2) u subset_refl] obtain s1 where
    s1: "foldM (bfs_visit m) (halfedges_v m u) s = Inr s1" "bfs_invs m srcs s1" "bfs_rel s s1"
        "\<forall>h \<in> set (halfedges_v m u). int (to_vertex m h) \<in> set (placed s1)"
    by blast
  have fr: "\<forall>u \<in> set front. u < n_vertices m \<and> int u \<in> set (placed s1)"
    using Cons.prems(3) bfs_rel_placed[OF s1(3)] by auto
  from Cons.IH[OF s1(2) Cons.prems(2) fr] obtain s2 where
    s2: "foldM (\<lambda>vh. foldM (bfs_visit m) (halfedges_v m vh)) front s1 = Inr s2"
        "bfs_invs m srcs s2" "bfs_rel s1 s2"
        "\<forall>u \<in> set front. \<forall>h \<in> set (halfedges_v m u). int (to_vertex m h) \<in> set (placed s2)"
    by blast
  have "foldM (\<lambda>vh. foldM (bfs_visit m) (halfedges_v m vh)) (u # front) s = Inr s2"
    using s1(1) s2(1) by simp
  moreover have "bfs_rel s s2" using bfs_rel_trans[OF s1(3) s2(3)] .
  moreover have "\<forall>h \<in> set (halfedges_v m u). int (to_vertex m h) \<in> set (placed s2)"
    using s1(4) bfs_rel_placed[OF s2(3)] by blast
  ultimately show ?case using s2(2,4) by auto
qed

lemma inv_tree_source:
  assumes sh: "inv_shape m s" and tr: "inv_tree m srcs s"
    and put: "bfs_put m (nat x) s s'"
    and same: "transition_halfedge_idx s' = transition_halfedge_idx s"
    and k: "bfs_id s < length srcs" "srcs ! bfs_id s = x" "0 \<le> x"
    and room: "bfs_id s < n_vertices m"
  shows "inv_tree m srcs s'"
proof -
  have lo: "length (bfs_vertex_list s) = n_vertices m"
    using sh by (auto simp: inv_shape_def)
  have o': "bfs_vertex_list s' = (bfs_vertex_list s)[bfs_id s := x]"
    and k': "bfs_id s' = bfs_id s + 1"
    using put k(3) by (auto simp: bfs_put_def)
  have pl: "placed s' = placed s @ [x]"
    using placed_put[OF sh put room] k(3) by simp
  have c1: "\<forall>i. i < length srcs \<longrightarrow> i < bfs_id s' \<longrightarrow> bfs_vertex_list s' ! i = srcs ! i"
  proof (intro allI impI)
    fix i assume i: "i < length srcs" "i < bfs_id s'"
    then consider "i < bfs_id s" | "i = bfs_id s" using k' by linarith
    then show "bfs_vertex_list s' ! i = srcs ! i"
    proof cases
      case 1
      then show ?thesis using tr i(1) o' by (auto simp: inv_tree_def)
    next
      case 2
      then show ?thesis using o' lo room k(2) by simp
    qed
  qed
  have c2: "\<forall>i. i < length srcs \<longrightarrow> i < n_vertices m \<longrightarrow> transition_halfedge_idx s' ! i = - 1"
    using tr same by (auto simp: inv_tree_def)
  have c3: "\<forall>i. length srcs \<le> i \<longrightarrow> i < bfs_id s' \<longrightarrow>
         (\<exists>h. transition_halfedge_idx s' ! i = int h
             \<and> int (to_vertex m h) = bfs_vertex_list s' ! i
             \<and> (\<exists>j < i. bfs_vertex_list s' ! j = int (from_vertex m h)))"
    using k(1) k' by auto
  have "x \<in> set srcs" using k(1,2) by auto
  then have "nat x \<in> reachable (neighbours m) (nat ` set srcs)"
    by (auto intro: reachable.source)
  then have c4: "\<forall>y \<in> set (placed s'). nat y \<in> reachable (neighbours m) (nat ` set srcs)"
    using tr pl by (auto simp: inv_tree_def)
  show ?thesis unfolding inv_tree_def using c1 c2 c3 c4 by blast
qed

lemma bfs_sources_inv:
  assumes "inv_shape m s" "inv_addr m s" "inv_tree m srcs s"
    "srcs = placed s @ rest" "distinct srcs" "\<forall>x \<in> set srcs. 0 \<le> x \<and> x < int (n_vertices m)"
  shows "\<exists>s'. foldM (bfs_source m) rest s = Inr s' \<and> bfs_invs m srcs s'
              \<and> bfs_id s' = length srcs
              \<and> bfs_segment_addr_vec s' = bfs_segment_addr_vec s
              \<and> next_front s' = next_front s"
  using assms
proof (induction rest arbitrary: s)
  case Nil
  then have "bfs_id s = length srcs"
    by (simp add: placed_def inv_shape_def)
  with Nil show ?case by (simp add: bfs_invs_def)
next
  case (Cons x rest)
  have lp: "length (placed s) = bfs_id s"
    using Cons.prems(1) by (simp add: placed_def inv_shape_def)
  have lens: "length (visited s) = n_vertices m" "length (bfs_vertex_list s) = n_vertices m"
    "length (bfs_laplacian_coef_addr s) = n_vertices m + 1"
    using Cons.prems(1) by (auto simp: inv_shape_def)
  have x: "0 \<le> x" "x < int (n_vertices m)" "x \<notin> set (placed s)"
    using Cons.prems(4,5,6) by auto
  then have nv: "nat x < n_vertices m" "\<not> visited s ! nat x"
    using Cons.prems(1) by (auto simp: inv_shape_def)
  have room: "bfs_id s < n_vertices m" using inv_shape_room[OF Cons.prems(1) nv] .
  define s1 where "s1 = s\<lparr>visited := (visited s)[nat x := True],
                  bfs_vertex_list := (bfs_vertex_list s)[bfs_id s := x],
                  bfs_laplacian_coef_addr := (bfs_laplacian_coef_addr s)
                     [bfs_id s + 1 := bfs_laplacian_coef_addr s ! bfs_id s
                        + int (valence m (nat x)) + 1],
                  bfs_id := bfs_id s + 1\<rparr>"
  have eq: "bfs_source m x s = Inr s1"
    using x room lens by (simp add: bfs_source_def s1_def)
  have put: "bfs_put m (nat x) s s1"
    using x(1) by (simp add: bfs_put_def s1_def)
  have same: "transition_halfedge_idx s1 = transition_halfedge_idx s"
    "bfs_segment_addr_vec s1 = bfs_segment_addr_vec s" "next_front s1 = next_front s"
    by (auto simp: s1_def)
  have k: "bfs_id s < length srcs" "srcs ! bfs_id s = x"
    using Cons.prems(4) lp by (auto simp: nth_append)
  have i1: "inv_shape m s1" using inv_shape_put[OF Cons.prems(1) put nv] .
  have i2: "inv_addr m s1" using inv_addr_put[OF Cons.prems(1,2) put room] .
  have i3: "inv_tree m srcs s1"
    using inv_tree_source[OF Cons.prems(1,3) put same(1) k x(1) room] .
  have pl: "srcs = placed s1 @ rest"
    using placed_put[OF Cons.prems(1) put room] Cons.prems(4) x(1) by simp
  from Cons.IH[OF i1 i2 i3 pl Cons.prems(5,6)] obtain s' where
    "foldM (bfs_source m) rest s1 = Inr s'" "bfs_invs m srcs s'" "bfs_id s' = length srcs"
    "bfs_segment_addr_vec s' = bfs_segment_addr_vec s1" "next_front s' = next_front s1"
    by blast
  then show ?case using eq same by simp
qed

lemma bfs_init_inv:
  "inv_shape m (bfs_init m param) \<and> inv_addr m (bfs_init m param)
   \<and> inv_tree m srcs (bfs_init m param) \<and> placed (bfs_init m param) = []"
  by (simp add: inv_shape_def inv_addr_def inv_tree_def placed_def bfs_init_def)

lemma bfs_invs_next_front [simp]:
  "bfs_invs m srcs (s\<lparr>next_front := x\<rparr>) = bfs_invs m srcs s"
  by (simp add: bfs_invs_def inv_shape_def inv_addr_def inv_tree_def placed_def)

lemma bfs_invs_segment [simp]:
  "bfs_invs m srcs (s\<lparr>bfs_segment_addr_vec := x\<rparr>) = bfs_invs m srcs s"
  by (simp add: bfs_invs_def inv_shape_def inv_addr_def inv_tree_def placed_def)

lemma placed_updates [simp]:
  "placed (s\<lparr>next_front := x\<rparr>) = placed s"
  "placed (s\<lparr>bfs_segment_addr_vec := y\<rparr>) = placed s"
  by (simp_all add: placed_def)

lemma sorted_le_last: "sorted (xs :: int list) \<Longrightarrow> y \<in> set xs \<Longrightarrow> y \<le> last xs"
  by (induction xs) (auto split: if_splits)

lemma bfs_loop_inv:
  "rings_ok m \<Longrightarrow> bfs_invs m srcs s \<Longrightarrow> seg_inv srcs s
   \<Longrightarrow> \<forall>u \<in> set front. u < n_vertices m \<and> int u \<in> set (placed s)
   \<Longrightarrow> closed_except m s (set front)
   \<Longrightarrow> \<exists>s'. bfs_loop m front s = Inr s' \<and> bfs_invs m srcs s' \<and> seg_inv srcs s'
            \<and> closed_except m s' {}
            \<and> length (bfs_segment_addr_vec s) \<le> length (bfs_segment_addr_vec s')
            \<and> (front \<noteq> [] \<longrightarrow> 3 \<le> length (bfs_segment_addr_vec s'))"
proof (induction m front s rule: bfs_loop.induct)
  case (1 m front s)
  show ?case
  proof (cases "front = []")
    case True
    then show ?thesis
      using "1.prems" by (subst bfs_loop.simps) simp
  next
    case False
    let ?s0 = "s\<lparr>next_front := []\<rparr>"
    have inv0: "bfs_invs m srcs ?s0" using "1.prems"(2) by simp
    have fr0: "\<forall>u \<in> set front. u < n_vertices m \<and> int u \<in> set (placed ?s0)"
      using "1.prems"(4) by simp
    from bfs_expand_inv[OF inv0 "1.prems"(1) fr0] obtain s1 where
      s1: "bfs_expand m front ?s0 = Inr s1" "bfs_invs m srcs s1" "bfs_rel ?s0 s1"
          "\<forall>u \<in> set front. \<forall>h \<in> set (halfedges_v m u). int (to_vertex m h) \<in> set (placed s1)"
      by blast
    from s1(3) have seg1: "bfs_segment_addr_vec s1 = bfs_segment_addr_vec s"
      and pl1: "placed s1 = placed s @ map int (next_front s1)"
      by (auto simp: bfs_rel_def)
    have sh: "inv_shape m s" and sh1: "inv_shape m s1"
      using "1.prems"(2) s1(2) by (auto simp: bfs_invs_def)
    have "length (placed s) = bfs_id s" "length (placed s1) = bfs_id s1"
      using sh sh1 by (auto simp: placed_def inv_shape_def)
    with pl1 have id1: "bfs_id s1 = bfs_id s + length (next_front s1)"
      by (metis length_append length_map)
    let ?s2 = "s1\<lparr>bfs_segment_addr_vec := bfs_segment_addr_vec s1
                  @ [last (bfs_segment_addr_vec s1) + int (length (next_front s1))]\<rparr>"
    have inv2: "bfs_invs m srcs ?s2" using s1(2) by simp
    have sg: "2 \<le> length (bfs_segment_addr_vec s)" "bfs_segment_addr_vec s ! 0 = 0"
      "bfs_segment_addr_vec s ! 1 = int (length srcs)" "sorted (bfs_segment_addr_vec s)"
      "last (bfs_segment_addr_vec s) = int (bfs_id s)"
      using "1.prems"(3) by (auto simp: seg_inv_def)
    have srt: "sorted (bfs_segment_addr_vec s @ [int (bfs_id s) + int (length (next_front s1))])"
      using sg(4,5) sorted_le_last[OF sg(4)] by (fastforce simp: sorted_append)
    have seg2: "seg_inv srcs ?s2"
    proof -
      have ne: "bfs_segment_addr_vec s \<noteq> []" using sg(1) by auto
      show ?thesis
        unfolding seg_inv_def using sg srt seg1 id1 ne by (simp add: nth_append)
    qed
    have fr2: "\<forall>u \<in> set (next_front s1). u < n_vertices m \<and> int u \<in> set (placed ?s2)"
    proof
      fix u assume "u \<in> set (next_front s1)"
      then have "int u \<in> set (placed s1)" using pl1 by simp
      moreover from this have "int u < int (n_vertices m)"
        using sh1 by (auto simp: inv_shape_def)
      ultimately show "u < n_vertices m \<and> int u \<in> set (placed ?s2)" by simp
    qed
    have cl2: "closed_except m ?s2 (set (next_front s1))"
      unfolding closed_except_def
    proof (intro allI impI ballI)
      fix u h
      assume u: "u < n_vertices m" "int u \<in> set (placed ?s2)" "u \<notin> set (next_front s1)"
        and h: "h \<in> set (halfedges_v m u)"
      from u(2,3) pl1 have up: "int u \<in> set (placed s)" by auto
      show "int (to_vertex m h) \<in> set (placed ?s2)"
      proof (cases "u \<in> set front")
        case True
        with s1(4) h show ?thesis by simp
      next
        case False
        with "1.prems"(5) u(1) up h have "int (to_vertex m h) \<in> set (placed s)"
          unfolding closed_except_def by blast
        then show ?thesis using pl1 by simp
      qed
    qed
    from "1.IH"[OF False s1(1) "1.prems"(1) inv2 seg2 fr2 cl2] obtain s' where
      s': "bfs_loop m (next_front s1) ?s2 = Inr s'" "bfs_invs m srcs s'" "seg_inv srcs s'"
          "closed_except m s' {}"
          "length (bfs_segment_addr_vec ?s2) \<le> length (bfs_segment_addr_vec s')"
      by blast
    have "bfs_loop m front s = Inr s'"
      using False s1(1) s'(1) by (subst bfs_loop.simps) simp
    moreover have "length (bfs_segment_addr_vec s) + 1 \<le> length (bfs_segment_addr_vec s')"
      using s'(5) seg1 by simp
    ultimately show ?thesis using s'(2,3,4) sg(1) by auto
  qed
qed

lemma init_bfs_paths_inv:
  assumes ro: "rings_ok m" and so: "sources_ok m param"
  shows "\<exists>s. init_bfs_paths m param = Inr s \<and> bfs_invs m (source_vertices param) s
            \<and> seg_inv (source_vertices param) s \<and> closed_except m s {}
            \<and> (source_vertices param \<noteq> [] \<longrightarrow> 3 \<le> length (bfs_segment_addr_vec s))"
proof -
  let ?srcs = "source_vertices param" and ?s0 = "bfs_init m param"
  have d: "distinct ?srcs" and r: "\<forall>x \<in> set ?srcs. 0 \<le> x \<and> x < int (n_vertices m)"
    using so by (auto simp: sources_ok_def)
  have i0: "inv_shape m ?s0" "inv_addr m ?s0" "inv_tree m ?srcs ?s0" "?srcs = placed ?s0 @ ?srcs"
    using bfs_init_inv[of m param ?srcs] by auto
  from bfs_sources_inv[OF i0 d r] obtain s1 where
    s1: "foldM (bfs_source m) ?srcs ?s0 = Inr s1" "bfs_invs m ?srcs s1"
        "bfs_id s1 = length ?srcs" "bfs_segment_addr_vec s1 = bfs_segment_addr_vec ?s0"
        "next_front s1 = next_front ?s0"
    by blast
  have sh1: "inv_shape m s1" and tr1: "inv_tree m ?srcs s1"
    using s1(2) by (auto simp: bfs_invs_def)
  have seg1: "seg_inv ?srcs s1"
    using s1(3,4) by (simp add: seg_inv_def bfs_init_def)
  have pl1: "placed s1 = ?srcs"
  proof (rule nth_equalityI)
    show "length (placed s1) = length ?srcs"
      using sh1 s1(3) by (simp add: placed_def inv_shape_def)
  next
    fix i assume "i < length (placed s1)"
    then show "placed s1 ! i = ?srcs ! i"
      using tr1 s1(3) by (simp add: placed_def inv_tree_def)
  qed
  have fr1: "\<forall>u \<in> set (map nat ?srcs). u < n_vertices m \<and> int u \<in> set (placed s1)"
    using r pl1 by auto
  have "\<forall>u < n_vertices m. int u \<in> set (placed s1) \<longrightarrow> u \<in> set (map nat ?srcs)"
    using pl1 by force
  then have cl1: "closed_except m s1 (set (map nat ?srcs))"
    unfolding closed_except_def by blast
  from bfs_loop_inv[OF ro s1(2) seg1 fr1 cl1] obtain s where
    "bfs_loop m (map nat ?srcs) s1 = Inr s" "bfs_invs m ?srcs s" "seg_inv ?srcs s"
    "closed_except m s {}" "map nat ?srcs \<noteq> [] \<longrightarrow> 3 \<le> length (bfs_segment_addr_vec s)"
    by blast
  then show ?thesis using s1(1) by (simp add: init_bfs_paths_def)
qed

lemma reachable_mono:
  "v \<in> reachable nb A \<Longrightarrow> A \<subseteq> B \<Longrightarrow> v \<in> reachable nb B"
  by (induction rule: reachable.induct) (auto intro: reachable.intros)

lemma bfs_final_placed:
  assumes inv: "bfs_invs m srcs s" and ro: "rings_ok m" and cl: "closed_except m s {}"
    and r: "\<forall>x \<in> set srcs. 0 \<le> x \<and> x < int (n_vertices m)"
    and v: "v \<in> reachable (neighbours m) (nat ` set srcs)"
  shows "v < n_vertices m \<and> int v \<in> set (placed s)"
  using v
proof (induction rule: reachable.induct)
  case (source v)
  then obtain x where x: "x \<in> set srcs" "v = nat x" by auto
  then obtain i where i: "i < length srcs" "srcs ! i = x" by (auto simp: in_set_conv_nth)
  have sh: "inv_shape m s" and tr: "inv_tree m srcs s" and ns: "length srcs \<le> bfs_id s"
    using inv by (auto simp: bfs_invs_def)
  have "bfs_vertex_list s ! i = x" using tr i ns by (auto simp: inv_tree_def)
  then have "x \<in> set (placed s)" using in_placed_conv[OF sh] i(1) ns
    by (metis less_le_trans)
  then show ?case using x r by auto
next
  case (step u v)
  then obtain h where h: "h \<in> set (halfedges_v m u)" "v = to_vertex m h"
    by (auto simp: neighbours_def)
  then show ?case using step.IH cl ro
    by (auto simp: closed_except_def rings_ok_def)
qed

lemma full_set_length:
  assumes "distinct (xs :: int list)" "\<forall>x \<in> set xs. 0 \<le> x \<and> x < int n"
  shows "length xs = n \<longleftrightarrow> (\<forall>v < n. int v \<in> set xs)"
proof -
  have sub: "set xs \<subseteq> int ` {..<n}"
  proof
    fix x assume "x \<in> set xs"
    with assms(2) have "nat x < n" "x = int (nat x)" by auto
    then show "x \<in> int ` {..<n}" by blast
  qed
  have c: "card (int ` {..<n}) = n" by (simp add: card_image)
  have l: "card (set xs) = length xs" using assms(1) by (simp add: distinct_card)
  show ?thesis
  proof
    assume "length xs = n"
    with sub c l have "set xs = int ` {..<n}"
      by (metis card_subset_eq finite_imageI finite_lessThan)
    then show "\<forall>v < n. int v \<in> set xs" by auto
  next
    assume "\<forall>v < n. int v \<in> set xs"
    then have "int ` {..<n} \<subseteq> set xs" by auto
    with sub have "set xs = int ` {..<n}" by auto
    with c l show "length xs = n" by simp
  qed
qed

lemma init_bfs_paths_connected:
  assumes ro: "rings_ok m" and so: "sources_ok m param"
    and ne: "source_vertices param \<noteq> []" and co: "connected m"
  shows "\<exists>s. init_bfs_paths m param = Inr s \<and> bfs_invs m (source_vertices param) s
            \<and> seg_inv (source_vertices param) s \<and> bfs_id s = n_vertices m
            \<and> 3 \<le> length (bfs_segment_addr_vec s)"
proof -
  let ?srcs = "source_vertices param"
  from init_bfs_paths_inv[OF ro so] ne obtain s where
    s: "init_bfs_paths m param = Inr s" "bfs_invs m ?srcs s" "seg_inv ?srcs s"
       "closed_except m s {}" "3 \<le> length (bfs_segment_addr_vec s)"
    by blast
  have r: "\<forall>x \<in> set ?srcs. 0 \<le> x \<and> x < int (n_vertices m)"
    using so by (auto simp: sources_ok_def)
  have sh: "inv_shape m s" using s(2) by (simp add: bfs_invs_def)
  obtain x where x: "x \<in> set ?srcs" using ne by (cases ?srcs) auto
  then have nx: "nat x < n_vertices m" using r by auto
  have "\<forall>v < n_vertices m. int v \<in> set (placed s)"
  proof (intro allI impI)
    fix v assume "v < n_vertices m"
    with co nx have "v \<in> reachable (neighbours m) {nat x}" by (simp add: connected_def)
    then have "v \<in> reachable (neighbours m) (nat ` set ?srcs)"
      using x by (auto intro: reachable_mono)
    then show "int v \<in> set (placed s)"
      using bfs_final_placed[OF s(2) ro s(4) r] by blast
  qed
  moreover have "distinct (placed s)" "\<forall>x \<in> set (placed s). 0 \<le> x \<and> x < int (n_vertices m)"
    using sh by (auto simp: inv_shape_def)
  ultimately have "length (placed s) = n_vertices m"
    using full_set_length by blast
  then have "bfs_id s = n_vertices m"
    using sh by (simp add: placed_def inv_shape_def)
  with s show ?thesis by blast
qed

lemma init_bfs_paths_unreached:
  assumes ro: "rings_ok m" and so: "sources_ok m param"
    and un: "\<exists>v < n_vertices m. v \<notin> reachable (neighbours m) (nat ` set (source_vertices param))"
  shows "\<exists>s. init_bfs_paths m param = Inr s \<and> bfs_invs m (source_vertices param) s
            \<and> bfs_id s < n_vertices m"
proof -
  let ?srcs = "source_vertices param"
  from init_bfs_paths_inv[OF ro so] obtain s where
    s: "init_bfs_paths m param = Inr s" "bfs_invs m ?srcs s"
    by blast
  have sh: "inv_shape m s" and tr: "inv_tree m ?srcs s"
    using s(2) by (auto simp: bfs_invs_def)
  have d: "distinct (placed s)" "\<forall>x \<in> set (placed s). 0 \<le> x \<and> x < int (n_vertices m)"
    using sh by (auto simp: inv_shape_def)
  from un obtain v where v: "v < n_vertices m" "v \<notin> reachable (neighbours m) (nat ` set ?srcs)"
    by blast
  have "int v \<notin> set (placed s)"
  proof
    assume "int v \<in> set (placed s)"
    then have "nat (int v) \<in> reachable (neighbours m) (nat ` set ?srcs)"
      using tr unfolding inv_tree_def by blast
    with v(2) show False by simp
  qed
  with v(1) have "length (placed s) \<noteq> n_vertices m"
    using full_set_length[OF d] by blast
  then have "bfs_id s < n_vertices m"
    using sh by (simp add: placed_def inv_shape_def)
  with s show ?thesis by blast
qed

section \<open>Properties of solve\<close>

lemma normalize_mesh_eq:
  "\<exists>p k. normalize_mesh m = (m\<lparr>position := p\<rparr>, k)"
  unfolding normalize_mesh_def Let_def by blast

lemma bfs_position [simp]:
  "bfs_init (m\<lparr>position := p\<rparr>) param = bfs_init m param"
  "bfs_source (m\<lparr>position := p\<rparr>) = bfs_source m"
  "bfs_visit (m\<lparr>position := p\<rparr>) = bfs_visit m"
  by (simp_all add: bfs_init_def bfs_source_def bfs_visit_def fun_eq_iff Let_def)

lemma bfs_expand_position [simp]: "bfs_expand (m\<lparr>position := p\<rparr>) = bfs_expand m"
  by (simp add: bfs_expand_def fun_eq_iff)

lemma bfs_loop_Nil: "bfs_loop m [] s = Inr s"
  by (subst bfs_loop.simps) simp

lemma bfs_loop_unfold:
  "front \<noteq> [] \<Longrightarrow>
   bfs_loop m front s =
     (case bfs_expand m front (s\<lparr>next_front := []\<rparr>) of
        Inl e \<Rightarrow> Inl e
      | Inr s' \<Rightarrow>
          bfs_loop m (next_front s')
            (s'\<lparr>bfs_segment_addr_vec := bfs_segment_addr_vec s'
                   @ [last (bfs_segment_addr_vec s') + int (length (next_front s'))]\<rparr>))"
  by (subst bfs_loop.simps) simp

lemma bfs_loop_position: "bfs_loop (m\<lparr>position := p\<rparr>) front s = bfs_loop m front s"
proof (induction m front s rule: bfs_loop.induct)
  case (1 m front s)
  show ?case
  proof (cases "front = []")
    case True
    then show ?thesis by (simp only: bfs_loop_Nil)
  next
    case False
    have l: "bfs_loop (m\<lparr>position := p\<rparr>) front s =
        (case bfs_expand m front (s\<lparr>next_front := []\<rparr>) of
           Inl e \<Rightarrow> Inl e
         | Inr s' \<Rightarrow>
             bfs_loop (m\<lparr>position := p\<rparr>) (next_front s')
               (s'\<lparr>bfs_segment_addr_vec := bfs_segment_addr_vec s'
                      @ [last (bfs_segment_addr_vec s') + int (length (next_front s'))]\<rparr>))"
      using bfs_loop_unfold[OF False, of "m\<lparr>position := p\<rparr>" s]
      by (simp only: bfs_expand_position)
    show ?thesis
    proof (cases "bfs_expand m front (s\<lparr>next_front := []\<rparr>)")
      case (Inl e)
      then show ?thesis
        using l bfs_loop_unfold[OF False, of m s] by (simp only: sum.case)
    next
      case (Inr s1)
      then show ?thesis
        using l bfs_loop_unfold[OF False, of m s] "1.IH"[OF False Inr]
        by (simp only: sum.case)
    qed
  qed
qed

lemma init_bfs_paths_position [simp]:
  "init_bfs_paths (m\<lparr>position := p\<rparr>) param = init_bfs_paths m param"
  by (simp add: init_bfs_paths_def bfs_loop_position split: sum.splits)

lemma solve_fault:
  assumes "load_input read_ok m param" "init_bfs_paths m param = Inl e"
  shows "solve read_ok m param geod0 = Inl e"
proof -
  obtain p k where "normalize_mesh m = (m\<lparr>position := p\<rparr>, k)"
    using normalize_mesh_eq by blast
  with assms show ?thesis by (simp add: solve_def)
qed

section \<open>Properties of the ADMM updates\<close>

lemma upt_split: "a \<le> b \<Longrightarrow> b \<le> c \<Longrightarrow> [a..<c] = [a..<b] @ [b..<c]"
  using upt_add_eq_append[of a b "c - b"] by simp

lemma upt_split3: "a \<le> i \<Longrightarrow> i < c \<Longrightarrow> [a..<c] = [a..<i] @ i # [Suc i..<c]"
  using upt_split[of a i c] by (simp add: upt_conv_Cons)

lemma triple_update_nth:
  assumes "i + 2 < length (xs :: real list)"
  shows "xs[i := a, i + 1 := b, i + 2 := c] ! i = a"
    "xs[i := a, i + 1 := b, i + 2 := c] ! (i + 1) = b"
    "xs[i := a, i + 1 := b, i + 2 := c] ! (i + 2) = c"
  using assms by (simp_all add: nth_list_update)

lemma triple_update_other:
  "j < i \<or> i + 2 < j \<Longrightarrow> xs[i := a, i + 1 := b, i + 2 := c] ! j = xs ! j"
  by auto

lemma update_Y_face_eq:
  "update_Y_face SXp D Q i Y =
     Y[3 * i := fst (projected SXp D Q i), 3 * i + 1 := fst (snd (projected SXp D Q i)),
       3 * i + 2 := snd (snd (projected SXp D Q i))]"
  unfolding update_Y_face_def projected_def Let_def ..

lemma update_Y_face_length: "length (update_Y_face SXp D Q i Y) = length Y"
  by (simp add: update_Y_face_eq)

lemma update_Y_face_other:
  "j < 3 * i \<or> 3 * i + 2 < j \<Longrightarrow> update_Y_face SXp D Q i Y ! j = Y ! j"
  unfolding update_Y_face_eq by (rule triple_update_other)

lemma fold_update_Y_face_length:
  "length (fold (update_Y_face SXp D Q) fs Y) = length Y"
  by (induction fs arbitrary: Y) (simp_all add: update_Y_face_length)

lemma fold_update_Y_face_other:
  "\<forall>i \<in> set fs. j < 3 * i \<or> 3 * i + 2 < j \<Longrightarrow>
   fold (update_Y_face SXp D Q) fs Y ! j = Y ! j"
  by (induction fs arbitrary: Y) (simp_all add: update_Y_face_other)

lemma update_Y_nth:
  assumes "length Y = 3 * n_f" "f < n_f"
  shows "update_Y n_f SXp D Q Y ! (3 * f) = fst (projected SXp D Q f)"
    "update_Y n_f SXp D Q Y ! (3 * f + 1) = fst (snd (projected SXp D Q f))"
    "update_Y n_f SXp D Q Y ! (3 * f + 2) = snd (snd (projected SXp D Q f))"
proof -
  let ?g = "update_Y_face SXp D Q"
  have split: "[0..<n_f] = [0..<f] @ f # [Suc f..<n_f]"
    using assms(2) by (simp add: upt_split3)
  define Y0 where "Y0 = fold ?g [0..<f] Y"
  have l0: "3 * f + 2 < length Y0"
    using assms by (simp add: Y0_def fold_update_Y_face_length)
  have eq: "update_Y n_f SXp D Q Y = fold ?g [Suc f..<n_f] (?g f Y0)"
    by (simp add: update_Y_def split Y0_def)
  have later: "fold ?g [Suc f..<n_f] (?g f Y0) ! (3 * f + k) = ?g f Y0 ! (3 * f + k)"
    if "k \<le> 2" for k
    using that by (intro fold_update_Y_face_other) auto
  show "update_Y n_f SXp D Q Y ! (3 * f) = fst (projected SXp D Q f)"
    using later[of 0] triple_update_nth(1)[OF l0] by (simp add: eq update_Y_face_eq)
  show "update_Y n_f SXp D Q Y ! (3 * f + 1) = fst (snd (projected SXp D Q f))"
    using later[of 1] triple_update_nth(2)[OF l0] by (simp add: eq update_Y_face_eq)
  show "update_Y n_f SXp D Q Y ! (3 * f + 2) = snd (snd (projected SXp D Q f))"
    using later[of 2] triple_update_nth(3)[OF l0] by (simp add: eq update_Y_face_eq)
qed

lemma sign_square: "q = - 1 \<or> q = (1::int) \<Longrightarrow> real_of_int q * real_of_int q = 1"
  by auto

section \<open>Properties of the tree integration\<close>

lemma integrate_loop_unfold:
  assumes "k + 1 < length seg"
  shows "integrate_loop seg ord tf te X k d =
     (if length seg \<le> k + 2
      then Inr (fold (integrate_vertex ord tf te X)
                  [nat (seg ! k)..<nat (seg ! (k + 1))] d)
      else integrate_loop seg ord tf te X (k + 1)
             (fold (integrate_vertex ord tf te X)
                  [nat (seg ! k)..<nat (seg ! (k + 1))] d))"
proof -
  have "length seg - 1 \<le> k + 1 \<longleftrightarrow> length seg \<le> k + 2" by linarith
  then show ?thesis
    using assms by (subst integrate_loop.simps) (simp add: Let_def)
qed

lemma integrate_loop_eq:
  assumes "sorted seg" "\<forall>x \<in> set seg. 0 \<le> x"
  shows "k + 1 < length seg \<Longrightarrow>
     integrate_loop seg ord tf te X k d =
       Inr (fold (integrate_vertex ord tf te X) [nat (seg ! k)..<nat (last seg)] d)"
proof (induction "length seg - k" arbitrary: k d)
  case 0
  then show ?case by simp
next
  case (Suc n)
  have ne: "seg \<noteq> []" using Suc.prems by auto
  show ?case
  proof (cases "length seg \<le> k + 2")
    case True
    then have "k + 1 = length seg - 1" using Suc.prems by linarith
    then have "last seg = seg ! (k + 1)" using ne by (simp add: last_conv_nth)
    then show ?thesis
      using True by (simp add: integrate_loop_unfold[OF Suc.prems])
  next
    case False
    then have k2: "(k + 1) + 1 < length seg" by simp
    have n: "n = length seg - (k + 1)" using Suc.hyps(2) by simp
    have le1: "seg ! k \<le> seg ! (k + 1)"
      using assms(1) Suc.prems by (simp add: sorted_nth_mono)
    have le2: "seg ! (k + 1) \<le> last seg"
      using sorted_le_last[OF assms(1)] Suc.prems nth_mem by blast
    have "[nat (seg ! k)..<nat (last seg)] =
          [nat (seg ! k)..<nat (seg ! (k + 1))] @ [nat (seg ! (k + 1))..<nat (last seg)]"
      using le1 le2 by (intro upt_split) auto
    then show ?thesis
      using False Suc.hyps(1)[OF n k2]
      by (simp add: integrate_loop_unfold[OF Suc.prems])
  qed
qed

lemma integrate_vertex_length:
  "length (integrate_vertex ord tf te X i d) = length d"
  by (simp add: integrate_vertex_def Let_def)

lemma integrate_vertex_other:
  "v \<noteq> nat (ord ! i) \<Longrightarrow> integrate_vertex ord tf te X i d ! v = d ! v"
  by (simp add: integrate_vertex_def Let_def)

lemma integrate_vertex_self:
  "nat (ord ! i) < length d \<Longrightarrow>
   integrate_vertex ord tf te X i d ! nat (ord ! i) =
     (if te ! i \<ge> 0 then d ! nat (tf ! i) + X ! nat (te ! i)
      else d ! nat (tf ! i) - X ! nat (- (te ! i + 1)))"
  by (simp add: integrate_vertex_def Let_def)

lemma fold_integrate_length:
  "length (fold (integrate_vertex ord tf te X) ps d) = length d"
  by (induction ps arbitrary: d) (simp_all add: integrate_vertex_length)

lemma fold_integrate_other:
  "\<forall>i \<in> set ps. nat (ord ! i) \<noteq> v \<Longrightarrow>
   fold (integrate_vertex ord tf te X) ps d ! v = d ! v"
  by (induction ps arbitrary: d) (simp_all add: integrate_vertex_other)

lemma fold_integrate_step:
  assumes ord: "distinct ord" "\<forall>x \<in> set ord. 0 \<le> x \<and> x < int (length d)"
    and i: "a \<le> i" "i < length ord" and j: "j < i" "tf ! i = ord ! j"
  shows "fold (integrate_vertex ord tf te X) [a..<length ord] d ! nat (ord ! i) =
     (if te ! i \<ge> 0
      then fold (integrate_vertex ord tf te X) [a..<length ord] d ! nat (tf ! i)
             + X ! nat (te ! i)
      else fold (integrate_vertex ord tf te X) [a..<length ord] d ! nat (tf ! i)
             - X ! nat (- (te ! i + 1)))"
proof -
  let ?f = "integrate_vertex ord tf te X"
  have inj: "nat (ord ! p) \<noteq> nat (ord ! q)" if "p < length ord" "q < length ord" "p \<noteq> q" for p q
  proof -
    have "ord ! p \<noteq> ord ! q" using ord(1) that by (simp add: nth_eq_iff_index_eq)
    moreover have "0 \<le> ord ! p" "0 \<le> ord ! q" using ord(2) that by auto
    ultimately show ?thesis by simp
  qed
  define d0 where "d0 = fold ?f [a..<i] d"
  have sp: "[a..<length ord] = [a..<i] @ i # [Suc i..<length ord]"
    using i by (simp add: upt_split3)
  have fin: "fold ?f [a..<length ord] d = fold ?f [Suc i..<length ord] (?f i d0)"
    by (simp add: sp d0_def)
  have "0 \<le> ord ! i \<and> ord ! i < int (length d)"
    using ord(2) i(2) nth_mem by blast
  then have l0: "nat (ord ! i) < length d0"
    by (simp add: d0_def fold_integrate_length nat_less_iff)
  have self: "fold ?f [Suc i..<length ord] (?f i d0) ! nat (ord ! i) = ?f i d0 ! nat (ord ! i)"
    using inj[of _ i] by (intro fold_integrate_other) auto
  have par1: "fold ?f [Suc i..<length ord] (?f i d0) ! nat (ord ! j) = ?f i d0 ! nat (ord ! j)"
    using inj[of _ j] j(1) i(2) by (intro fold_integrate_other) auto
  have par2: "?f i d0 ! nat (ord ! j) = d0 ! nat (ord ! j)"
    using inj[of j i] j(1) i(2) by (intro integrate_vertex_other) auto
  show ?thesis
    using self par1 par2 integrate_vertex_self[OF l0, of tf te X] j(2)
    by (simp add: fin)
qed


lemma bfs_tree_facts:
  assumes "rings_ok m" "sources_ok m param" "source_vertices param \<noteq> []" "connected m"
  shows "\<exists>s. init_bfs_paths m param = Inr s
     \<and> length (bfs_vertex_list s) = n_vertices m
     \<and> distinct (bfs_vertex_list s)
     \<and> (\<forall>x \<in> set (bfs_vertex_list s). 0 \<le> x \<and> x < int (n_vertices m))
     \<and> length (transition_halfedge_idx s) = n_vertices m
     \<and> (\<forall>i < length (source_vertices param).
            bfs_vertex_list s ! i = source_vertices param ! i)
     \<and> (\<forall>i. length (source_vertices param) \<le> i \<longrightarrow> i < n_vertices m \<longrightarrow>
          (\<exists>h. transition_halfedge_idx s ! i = int h
              \<and> int (to_vertex m h) = bfs_vertex_list s ! i
              \<and> (\<exists>j < i. bfs_vertex_list s ! j = int (from_vertex m h))))
     \<and> sorted (bfs_segment_addr_vec s) \<and> (\<forall>x \<in> set (bfs_segment_addr_vec s). 0 \<le> x)
     \<and> 3 \<le> length (bfs_segment_addr_vec s)
     \<and> bfs_segment_addr_vec s ! 1 = int (length (source_vertices param))
     \<and> last (bfs_segment_addr_vec s) = int (n_vertices m)
     \<and> length (source_vertices param) \<le> n_vertices m"
proof -
  let ?srcs = "source_vertices param"
  from init_bfs_paths_connected[OF assms] obtain s where
    s: "init_bfs_paths m param = Inr s" "bfs_invs m ?srcs s" "seg_inv ?srcs s"
       "bfs_id s = n_vertices m" "3 \<le> length (bfs_segment_addr_vec s)"
    by blast
  have sh: "inv_shape m s" and tr: "inv_tree m ?srcs s" and ns: "length ?srcs \<le> bfs_id s"
    using s(2) by (auto simp: bfs_invs_def)
  have pl: "placed s = bfs_vertex_list s"
    using sh s(4) by (simp add: placed_def inv_shape_def)
  have sg: "bfs_segment_addr_vec s ! 0 = 0" "sorted (bfs_segment_addr_vec s)"
    "bfs_segment_addr_vec s ! 1 = int (length ?srcs)"
    "last (bfs_segment_addr_vec s) = int (n_vertices m)"
    using s(3,4) by (auto simp: seg_inv_def)
  have nonneg: "\<forall>x \<in> set (bfs_segment_addr_vec s). 0 \<le> x"
  proof
    fix x assume "x \<in> set (bfs_segment_addr_vec s)"
    then obtain i where "i < length (bfs_segment_addr_vec s)" "bfs_segment_addr_vec s ! i = x"
      by (auto simp: in_set_conv_nth)
    then show "0 \<le> x" using sorted_nth_mono[OF sg(2), of 0 i] sg(1) by simp
  qed
  have "length (bfs_vertex_list s) = n_vertices m" "distinct (bfs_vertex_list s)"
    "\<forall>x \<in> set (bfs_vertex_list s). 0 \<le> x \<and> x < int (n_vertices m)"
    "length (transition_halfedge_idx s) = n_vertices m"
    using sh pl by (auto simp: inv_shape_def)
  moreover have "\<forall>i < length ?srcs. bfs_vertex_list s ! i = ?srcs ! i"
    using tr ns by (simp add: inv_tree_def)
  moreover have "\<forall>i. length ?srcs \<le> i \<longrightarrow> i < n_vertices m \<longrightarrow>
          (\<exists>h. transition_halfedge_idx s ! i = int h
              \<and> int (to_vertex m h) = bfs_vertex_list s ! i
              \<and> (\<exists>j < i. bfs_vertex_list s ! j = int (from_vertex m h)))"
    using tr s(4) unfolding inv_tree_def by simp
  ultimately show ?thesis using s(1,4,5) sg nonneg ns by auto
qed

lemma transition_tables_nth:
  assumes "i < n_vertices m" "transition ! i = int h"
  shows "compute_transition_from_vtx m transition ! i = int (from_vertex m h)"
    and "compute_transition_edge_idx m transition ! i =
           (if h = halfedge m (edge m h) 0 then - int (edge m h) - 1 else int (edge m h))"
  using assms
  by (simp_all add: compute_transition_from_vtx_def compute_transition_edge_idx_def Let_def)


section \<open>Properties of the Gauss-Seidel loop\<close>

lemma gs_loop_unfold:
  assumes "sc + 1 < length (hs_segment_addr hs)"
  shows "gs_loop hs sc it d =
     (if sc + 2 = length (hs_segment_addr hs)
      then (if hs_max_iter hs \<le> it + 1
               \<or> ((it + 1) mod hs_check_frequency hs = 0
                   \<and> heat_residual_norm hs (gs_update_segment hs sc d) \<le> hs_eps hs)
            then Inr (it + 1, gs_update_segment hs sc d)
            else gs_loop hs 0 (it + 1) (gs_update_segment hs sc d))
      else (if hs_max_iter hs \<le> it then Inr (it, gs_update_segment hs sc d)
            else gs_loop hs (sc + 1) it (gs_update_segment hs sc d)))"
proof -
  have "sc + 1 = length (hs_segment_addr hs) - 1 \<longleftrightarrow> sc + 2 = length (hs_segment_addr hs)"
    using assms by linarith
  then show ?thesis
    using assms by (subst gs_loop.simps) (auto simp: Let_def)
qed

lemma gs_finish_sweep:
  assumes "it < hs_max_iter hs"
  shows "sc + 1 < length (hs_segment_addr hs) \<Longrightarrow>
     gs_loop hs sc it d =
       (if hs_max_iter hs \<le> it + 1
           \<or> ((it + 1) mod hs_check_frequency hs = 0
               \<and> heat_residual_norm hs
                    (fold (gs_update_segment hs) [sc..<length (hs_segment_addr hs) - 1] d)
                  \<le> hs_eps hs)
        then Inr (it + 1,
                  fold (gs_update_segment hs) [sc..<length (hs_segment_addr hs) - 1] d)
        else gs_loop hs 0 (it + 1)
               (fold (gs_update_segment hs) [sc..<length (hs_segment_addr hs) - 1] d))"
proof (induction "length (hs_segment_addr hs) - sc" arbitrary: sc d)
  case 0
  then show ?case by simp
next
  case (Suc n)
  show ?case
  proof (cases "sc + 2 = length (hs_segment_addr hs)")
    case True
    then have "length (hs_segment_addr hs) - 1 = Suc sc" by simp
    then have "[sc..<length (hs_segment_addr hs) - 1] = [sc]"
      by simp
    then show ?thesis
      using True by (simp add: gs_loop_unfold[OF Suc.prems])
  next
    case False
    then have k: "sc + 1 + 1 < length (hs_segment_addr hs)" using Suc.prems by simp
    have n: "n = length (hs_segment_addr hs) - (sc + 1)" using Suc.hyps(2) by simp
    have "sc < length (hs_segment_addr hs) - 1" using k by simp
    then have "[sc..<length (hs_segment_addr hs) - 1]
        = sc # [sc + 1..<length (hs_segment_addr hs) - 1]"
      by (simp add: upt_conv_Cons)
    then show ?thesis
      using False assms Suc.hyps(1)[OF n k]
      by (simp add: gs_loop_unfold[OF Suc.prems])
  qed
qed


lemma heat_after_Suc: "heat_after hs (Suc k) d = heat_after hs k (gs_sweep hs d)"
  unfolding heat_after_def by (simp add: funpow_Suc_right del: funpow.simps)

lemma heat_after_shift:
  "it + 1 \<le> k \<Longrightarrow>
   heat_after hs (nat (k - (it + 1))) (gs_sweep hs d) = heat_after hs (nat (k - it)) d"
proof -
  assume "it + 1 \<le> k"
  then have "nat (k - it) = Suc (nat (k - (it + 1)))" by linarith
  then show ?thesis by (simp only: heat_after_Suc)
qed

lemma gs_stops_at_first:
  assumes "it < hs_max_iter hs"
    "hs_max_iter hs \<le> it + 1
     \<or> ((it + 1) mod hs_check_frequency hs = 0
         \<and> heat_residual_norm hs (gs_sweep hs d) \<le> hs_eps hs)"
  shows "gs_stops_at hs it d (it + 1)"
proof -
  have one: "heat_after hs (nat (it + 1 - it)) d = gs_sweep hs d"
    by (simp add: heat_after_def)
  have "\<forall>k. it < k \<and> k < it + 1 \<longrightarrow>
           \<not> (k mod hs_check_frequency hs = 0
               \<and> heat_residual_norm hs (heat_after hs (nat (k - it)) d) \<le> hs_eps hs)"
    by auto
  moreover have "it + 1 < hs_max_iter hs \<longrightarrow>
           (it + 1) mod hs_check_frequency hs = 0
           \<and> heat_residual_norm hs (heat_after hs (nat (it + 1 - it)) d) \<le> hs_eps hs"
    using assms(2) unfolding one by auto
  ultimately show ?thesis
    unfolding gs_stops_at_def using assms(1) by simp
qed

lemma gs_stops_at_later:
  assumes "gs_stops_at hs (it + 1) (gs_sweep hs d) K"
    "\<not> ((it + 1) mod hs_check_frequency hs = 0
         \<and> heat_residual_norm hs (gs_sweep hs d) \<le> hs_eps hs)"
  shows "gs_stops_at hs it d K"
proof -
  have one: "heat_after hs (nat (it + 1 - it)) d = gs_sweep hs d"
    by (simp add: heat_after_def)
  have c: "it + 1 < K \<and> K \<le> hs_max_iter hs
     \<and> (\<forall>k. it + 1 < k \<and> k < K \<longrightarrow>
           \<not> (k mod hs_check_frequency hs = 0
               \<and> heat_residual_norm hs (heat_after hs (nat (k - (it + 1))) (gs_sweep hs d))
                   \<le> hs_eps hs))
     \<and> (K < hs_max_iter hs \<longrightarrow>
           K mod hs_check_frequency hs = 0
           \<and> heat_residual_norm hs (heat_after hs (nat (K - (it + 1))) (gs_sweep hs d))
               \<le> hs_eps hs)"
    using assms(1) unfolding gs_stops_at_def .
  note K1 = c[THEN conjunct1] and K2 = c[THEN conjunct2, THEN conjunct1]
    and bef = c[THEN conjunct2, THEN conjunct2, THEN conjunct1, rule_format]
    and aft = c[THEN conjunct2, THEN conjunct2, THEN conjunct2, rule_format]
  have before: "\<not> (k mod hs_check_frequency hs = 0
               \<and> heat_residual_norm hs (heat_after hs (nat (k - it)) d) \<le> hs_eps hs)"
    if k: "it < k" "k < K" for k
  proof (cases "k = it + 1")
    case True
    have "heat_after hs (nat (k - it)) d = gs_sweep hs d"
      unfolding True by (rule one)
    then show ?thesis using assms(2) unfolding True by (simp only: not_False_eq_True)
  next
    case False
    then have lt: "it + 1 < k" using k(1) by linarith
    have sh: "heat_after hs (nat (k - (it + 1))) (gs_sweep hs d)
              = heat_after hs (nat (k - it)) d"
      by (rule heat_after_shift) (use lt in linarith)
    show ?thesis using bef[OF conjI[OF lt k(2)]] unfolding sh .
  qed
  have after: "K mod hs_check_frequency hs = 0
           \<and> heat_residual_norm hs (heat_after hs (nat (K - it)) d) \<le> hs_eps hs"
    if "K < hs_max_iter hs"
  proof -
    have sh: "heat_after hs (nat (K - (it + 1))) (gs_sweep hs d)
              = heat_after hs (nat (K - it)) d"
      by (rule heat_after_shift) (use K1 in linarith)
    show ?thesis using aft[OF that] unfolding sh .
  qed
  have it: "it < K" using K1 by linarith
  show ?thesis
    unfolding gs_stops_at_def
  proof (intro conjI allI impI)
    show "it < K" by (rule it)
    show "K \<le> hs_max_iter hs" by (rule K2)
  next
    fix k assume a: "it < k \<and> k < K"
    show "\<not> (k mod hs_check_frequency hs = 0
               \<and> heat_residual_norm hs (heat_after hs (nat (k - it)) d) \<le> hs_eps hs)"
      by (rule before[OF conjunct1[OF a] conjunct2[OF a]])
  next
    assume h: "K < hs_max_iter hs"
    show "K mod hs_check_frequency hs = 0" by (rule conjunct1[OF after[OF h]])
  next
    assume h: "K < hs_max_iter hs"
    show "heat_residual_norm hs (heat_after hs (nat (K - it)) d) \<le> hs_eps hs"
      by (rule conjunct2[OF after[OF h]])
  qed
qed

lemma gs_loop_outer:
  assumes seg: "2 \<le> length (hs_segment_addr hs)"
  shows "0 \<le> it \<Longrightarrow> it < hs_max_iter hs \<Longrightarrow>
     \<exists>K. gs_loop hs 0 it d = Inr (K, heat_after hs (nat (K - it)) d)
        \<and> gs_stops_at hs it d K"
proof (induction "nat (hs_max_iter hs - it)" arbitrary: it d)
  case 0
  then show ?case by simp
next
  case (Suc n)
  have s0: "0 + 1 < length (hs_segment_addr hs)" using seg by simp
  have one: "heat_after hs (nat (it + 1 - it)) d = gs_sweep hs d"
    by (simp add: heat_after_def)
  note fin = gs_finish_sweep[OF Suc.prems(2) s0, of d, folded gs_sweep_def]
  show ?case
  proof (cases "hs_max_iter hs \<le> it + 1
           \<or> ((it + 1) mod hs_check_frequency hs = 0
               \<and> heat_residual_norm hs (gs_sweep hs d) \<le> hs_eps hs)")
    case True
    have "gs_loop hs 0 it d = Inr (it + 1, heat_after hs (nat (it + 1 - it)) d)"
      unfolding one using fin True by simp
    then show ?thesis
      using gs_stops_at_first[OF Suc.prems(2) True] by blast
  next
    case False
    then have lt: "it + 1 < hs_max_iter hs" by simp
    have n: "n = nat (hs_max_iter hs - (it + 1))" using Suc.hyps(2) by linarith
    have nn: "0 \<le> it + 1" using Suc.prems(1) by simp
    from Suc.hyps(1)[OF n nn lt, of "gs_sweep hs d"] obtain K where
      K: "gs_loop hs 0 (it + 1) (gs_sweep hs d)
            = Inr (K, heat_after hs (nat (K - (it + 1))) (gs_sweep hs d))"
        "gs_stops_at hs (it + 1) (gs_sweep hs d) K"
      by blast
    have "it + 1 \<le> K" using K(2) by (simp add: gs_stops_at_def)
    then have run: "gs_loop hs 0 it d = Inr (K, heat_after hs (nat (K - it)) d)"
      using fin False K(1) heat_after_shift[of it K hs d] by simp
    from False have "\<not> ((it + 1) mod hs_check_frequency hs = 0
         \<and> heat_residual_norm hs (gs_sweep hs d) \<le> hs_eps hs)" by simp
    from gs_stops_at_later[OF K(2) this] run show ?thesis by blast
  qed
qed


lemma heat_threshold_eq:
  "hs_eps (make_heat_system m param bfs coef vertex_area) =
     max (1 / 10 ^ 16)
         (heat_residual_norm (make_heat_system m param bfs coef vertex_area)
            (initial_heat param (make_heat_system m param bfs coef vertex_area))
          * heat_solver_eps param)"
  by (simp add: make_heat_system_def Let_def heat_threshold_def heat_residual_norm_def
      initial_heat_def)

lemma make_heat_system_fields:
  "hs_segment_addr (make_heat_system m param bfs coef vertex_area) = bfs_segment_addr_vec bfs"
  "hs_max_iter (make_heat_system m param bfs coef vertex_area) = heat_solver_max_iter param"
  "hs_check_frequency (make_heat_system m param bfs coef vertex_area)
     = heat_solver_convergence_check_frequency param"
  by (simp_all add: make_heat_system_def Let_def)

section \<open>Faults and normal returns of the stages of solve\<close>


lemma foldM_fault:
  "x \<in> set xs \<Longrightarrow> (\<And>s. f x s = Inl Index_Out_Of_Range)
   \<Longrightarrow> foldM f xs s = Inl Index_Out_Of_Range"
proof (induction xs arbitrary: s)
  case Nil
  then show ?case by simp
next
  case (Cons y ys)
  show ?case
  proof (cases "f y s")
    case (Inl e)
    then show ?thesis by (cases e) simp
  next
    case (Inr s1)
    show ?thesis
    proof (cases "x = y")
      case True
      with Cons.prems(2)[of s] Inr show ?thesis by simp
    next
      case False
      with Cons.prems have "x \<in> set ys" by simp
      from Cons.IH[OF this Cons.prems(2)] Inr show ?thesis by simp
    qed
  qed
qed

lemma laplacian_vertex_fault:
  "bfs_vertex_list bfs ! i < 0 \<Longrightarrow>
   laplacian_vertex m bfs hc fa st i x = Inl Index_Out_Of_Range"
  by (cases x) (simp add: laplacian_vertex_def Let_def)


lemma compute_laplacian_fault:
  assumes "i < n_vertices m" "bfs_vertex_list bfs ! i < 0"
  shows "compute_laplacian m bfs = Inl Index_Out_Of_Range"
  unfolding compute_laplacian_def
  by (rule foldM_fault[where x = i]) (use assms in \<open>simp_all add: laplacian_vertex_fault\<close>)


lemma gauss_seidel_fault:
  assumes "i < n_vertices m" "bfs_vertex_list bfs ! i < 0"
  shows "gauss_seidel_init_gradients m param bfs = Inl Index_Out_Of_Range"
  by (simp add: gauss_seidel_init_gradients_def compute_laplacian_fault[OF assms])


lemma solve_unfold:
  assumes "load_input read_ok mesh0 param"
  shows "\<exists>p k. solve read_ok mesh0 param geod0 =
     (case init_bfs_paths mesh0 param of
        Inl e \<Rightarrow> Inl e
      | Inr bfs \<Rightarrow>
          (case gauss_seidel_init_gradients (mesh0\<lparr>position := p\<rparr>) param bfs of
             Inl e \<Rightarrow> Inl e
           | Inr init_grad \<Rightarrow>
               (case integrate_geodesic_distance (n_vertices mesh0) k
                      (bfs_segment_addr_vec bfs) (bfs_vertex_list bfs)
                      (fst (fst (prepare_integrate_geodesic_distance
                                   (mesh0\<lparr>position := p\<rparr>) param bfs init_grad)))
                      (snd (fst (prepare_integrate_geodesic_distance
                                   (mesh0\<lparr>position := p\<rparr>) param bfs init_grad)))
                      (var_X (compute_integrable_gradients
                         (fst (snd (prepare_integrate_geodesic_distance
                                   (mesh0\<lparr>position := p\<rparr>) param bfs init_grad)))
                         (snd (snd (prepare_integrate_geodesic_distance
                                   (mesh0\<lparr>position := p\<rparr>) param bfs init_grad))))) of
                  Inl e \<Rightarrow> Inl e
                | Inr d \<Rightarrow> Inr (True, d))))"
proof -
  obtain p k where n: "normalize_mesh mesh0 = (mesh0\<lparr>position := p\<rparr>, k)"
    using normalize_mesh_eq by blast
  show ?thesis
    by (intro exI[of _ p] exI[of _ k])
       (simp add: solve_def assms n split: sum.splits prod.splits)
qed



section \<open>Properties of the edge slots and of update_X\<close>

lemma incidence_corner_slots:
  "incidence_slots (incidence_corner m g i (k, h) st) =
     register_slot (3 * i + k, edge m h) (incidence_slots st)"
  by (cases st) (simp add: incidence_slots_def incidence_corner_def register_slot_def Let_def)

lemma fold_incidence_corner_slots:
  "incidence_slots (fold (incidence_corner m g i) cs st) =
     fold register_slot (map (\<lambda>(k, h). (3 * i + k, edge m h)) cs) (incidence_slots st)"
proof (induction cs arbitrary: st)
  case Nil
  then show ?case by simp
next
  case (Cons c cs)
  obtain k h where c: "c = (k, h)" by (cases c)
  show ?case by (simp add: c Cons.IH incidence_corner_slots)
qed

lemma fold_incidence_face_slots:
  "incidence_slots (fold (incidence_face m g) fs st) =
     fold register_slot
       (concat (map (\<lambda>i. map (\<lambda>(k, h). (3 * i + k, edge m h)) (enumerate 0 (halfedges_f m i))) fs))
       (incidence_slots st)"
  by (induction fs arbitrary: st)
     (simp_all add: incidence_face_def fold_incidence_corner_slots)

lemma compute_incidence_slots:
  "incidence_slots (compute_incidence m g) =
     fold register_slot (corner_slots m) (replicate (2 * n_edges m) (- 1), replicate (n_edges m) 0)"
proof -
  have "incidence_slots (replicate (3 * n_faces m) 0, replicate (3 * n_faces m) 0,
           replicate (3 * n_faces m) 0, replicate (2 * n_edges m) (- 1),
           replicate (n_edges m) 0) =
        (replicate (2 * n_edges m) (- 1), replicate (n_edges m) 0)"
    by (simp add: incidence_slots_def)
  then show ?thesis
    unfolding compute_incidence_def fold_incidence_face_slots corner_slots_def by simp
qed

lemma slot_addr_eq:
  "j < 2 \<Longrightarrow> c < 2 \<Longrightarrow> (2 * e + j = 2 * e0 + c) = (e = e0 \<and> j = (c::nat))"
  by arith

lemma slots_of_snoc:
  "slots_of e (ps @ [(slot, e0)]) = (if e0 = e then slots_of e ps @ [slot] else slots_of e ps)"
  by (simp add: slots_of_def)

lemma slots_of_append: "slots_of e (ps @ cs) = slots_of e ps @ slots_of e cs"
  by (simp add: slots_of_def)

lemma slots_of_Cons:
  "slots_of e ((slot, e0) # cs) = (if e0 = e then slot # slots_of e cs else slots_of e cs)"
  by (simp add: slots_of_def)

lemma slots_inv_init: "slots_inv n [] (replicate (2 * n) (- 1), replicate n 0)"
  by (simp add: slots_inv_def slots_of_def)

lemma slots_inv_step:
  assumes inv: "slots_inv n ps (EY, NR)" and e0: "e0 < n"
    and c: "length (slots_of e0 ps) < 2"
  shows "slots_inv n (ps @ [(slot, e0)]) (register_slot (slot, e0) (EY, NR))"
proof -
  let ?c = "length (slots_of e0 ps)"
  have len: "length EY = 2 * n" "length NR = n"
    using inv by (simp_all add: slots_inv_def)
  have nr: "NR ! e = length (slots_of e ps)" if "e < n" for e
    using inv that by (simp add: slots_inv_def)
  have ey: "EY ! (2 * e + j) =
      (if j < length (slots_of e ps) then int (slots_of e ps ! j) else - 1)"
    if "e < n" "j < 2" for e j
    using inv that by (simp add: slots_inv_def)
  have reg: "register_slot (slot, e0) (EY, NR) = (EY[2 * e0 + ?c := int slot], NR[e0 := ?c + 1])"
    by (simp add: register_slot_def nr[OF e0])
  have a: "2 * e0 + ?c < length EY" using len e0 c by simp
  have "NR[e0 := ?c + 1] ! e = length (slots_of e (ps @ [(slot, e0)]))" if "e < n" for e
    using that len nr[OF that] by (simp add: slots_of_snoc nth_list_update)
  moreover have "EY[2 * e0 + ?c := int slot] ! (2 * e + j) =
      (if j < length (slots_of e (ps @ [(slot, e0)]))
       then int (slots_of e (ps @ [(slot, e0)]) ! j) else - 1)"
    if e: "e < n" and j: "j < 2" for e j
  proof (cases "e = e0")
    case True
    show ?thesis
    proof (cases "j = ?c")
      case True
      with \<open>e = e0\<close> a show ?thesis by (simp add: slots_of_snoc)
    next
      case False
      then have "EY[2 * e0 + ?c := int slot] ! (2 * e + j) = EY ! (2 * e + j)"
        using \<open>e = e0\<close> by simp
      with False \<open>e = e0\<close> ey[OF e j] show ?thesis
        by (auto simp: slots_of_snoc nth_append)
    qed
  next
    case False
    then have "2 * e + j \<noteq> 2 * e0 + ?c" using slot_addr_eq[OF j c, of e e0] by simp
    then have "EY[2 * e0 + ?c := int slot] ! (2 * e + j) = EY ! (2 * e + j)" by simp
    with False ey[OF e j] show ?thesis by (simp add: slots_of_snoc)
  qed
  ultimately show ?thesis
    unfolding reg using len by (simp add: slots_inv_def)
qed

lemma slots_inv_fold:
  assumes "slots_inv n ps st" "\<forall>c \<in> set cs. snd c < n"
    and "\<forall>e<n. length (slots_of e (ps @ cs)) \<le> 2"
  shows "slots_inv n (ps @ cs) (fold register_slot cs st)"
  using assms
proof (induction cs arbitrary: ps st)
  case Nil
  then show ?case by simp
next
  case (Cons c cs)
  obtain slot e0 where c: "c = (slot, e0)" by (cases c)
  obtain EY NR where st: "st = (EY, NR)" by (cases st)
  have e0: "e0 < n" using Cons.prems(2) c by simp
  have "length (slots_of e0 (ps @ c # cs)) \<le> 2" using Cons.prems(3) e0 by simp
  then have lt: "length (slots_of e0 ps) < 2"
    by (simp add: slots_of_append slots_of_Cons c)
  have inv: "slots_inv n (ps @ [(slot, e0)]) (register_slot (slot, e0) st)"
    using slots_inv_step[OF _ e0 lt] Cons.prems(1) st by simp
  have "slots_inv n ((ps @ [(slot, e0)]) @ cs) (fold register_slot cs (register_slot (slot, e0) st))"
  proof (rule Cons.IH[OF inv])
    show "\<forall>c \<in> set cs. snd c < n" using Cons.prems(2) by simp
    show "\<forall>e<n. length (slots_of e ((ps @ [(slot, e0)]) @ cs)) \<le> 2"
      using Cons.prems(3) by (simp add: c)
  qed
  then show ?case by (simp add: c)
qed

lemma valid_slots_eq:
  assumes inv: "slots_inv n cs (EY, NR)" and e: "e < n"
    and le: "length (slots_of e cs) \<le> 2"
  shows "valid_slots EY e = slots_of e cs"
proof -
  have ey: "EY ! (2 * e + j) =
      (if j < length (slots_of e cs) then int (slots_of e cs ! j) else - 1)"
    if "j < 2" for j
    using inv e that by (simp add: slots_inv_def)
  have u: "[0..<2] = [0, Suc 0]" by (simp add: upt_rec)
  have v: "valid_slots EY e =
      map nat (filter (\<lambda>index. index \<ge> 0) [EY ! (2 * e + 0), EY ! (2 * e + 1)])"
    by (simp add: valid_slots_def u)
  consider "slots_of e cs = []" | a where "slots_of e cs = [a]"
    | a b where "slots_of e cs = [a, b]"
  proof (cases "slots_of e cs")
    case Nil
    then show ?thesis using that by simp
  next
    case (Cons a xs)
    show ?thesis
    proof (cases xs)
      case Nil
      then show ?thesis using that Cons by simp
    next
      case (Cons b ys)
      then have "ys = []" using le \<open>slots_of e cs = a # xs\<close> by simp
      then show ?thesis using that Cons \<open>slots_of e cs = a # xs\<close> by simp
    qed
  qed
  then show ?thesis
  proof cases
    case 1
    then show ?thesis using ey[of 0] ey[of 1] by (simp add: v)
  next
    case 2
    then show ?thesis using ey[of 0] ey[of 1] by (simp add: v)
  next
    case 3
    then show ?thesis using ey[of 0] ey[of 1] by (simp add: v)
  qed
qed


lemma enumerate_shift:
  "enumerate (a + b) ys = map (\<lambda>(k, h). (a + k, h)) (enumerate b ys)"
proof (induction ys arbitrary: b)
  case Nil
  then show ?case by simp
next
  case (Cons y ys)
  from Cons.IH[of "Suc b"] show ?case by simp
qed

lemma length_face_prefix:
  assumes "\<forall>f<n. length (halfedges_f m f) = 3"
  shows "length (concat (map (halfedges_f m) [0..<n])) = 3 * n"
  using assms by (induction n) simp_all

lemma corner_slots_prefix:
  assumes "\<forall>f<n. length (halfedges_f m f) = 3"
  shows "concat (map (\<lambda>i. map (\<lambda>(k, h). (3 * i + k, edge m h)) (enumerate 0 (halfedges_f m i)))
                     [0..<n]) =
         map (\<lambda>(j, h). (j, edge m h)) (enumerate 0 (concat (map (halfedges_f m) [0..<n])))"
  using assms
proof (induction n)
  case 0
  then show ?case by simp
next
  case (Suc n)
  have l: "length (concat (map (halfedges_f m) [0..<n])) = 3 * n"
    using Suc.prems by (simp add: length_face_prefix)
  have sh: "enumerate (3 * n) (halfedges_f m n) =
      map (\<lambda>(k, h). (3 * n + k, h)) (enumerate 0 (halfedges_f m n))"
    using enumerate_shift[of "3 * n" 0 "halfedges_f m n"] by simp
  have ih: "concat (map (\<lambda>i. map (\<lambda>(k, h). (3 * i + k, edge m h))
                 (enumerate 0 (halfedges_f m i))) [0..<n]) =
         map (\<lambda>(j, h). (j, edge m h)) (enumerate 0 (concat (map (halfedges_f m) [0..<n])))"
    using Suc by simp
  show ?case
    using ih by (simp add: enumerate_append_eq l sh split_def comp_def)
qed

lemma corner_slots_eq:
  assumes "\<forall>f<n_faces m. length (halfedges_f m f) = 3"
  shows "corner_slots m = map (\<lambda>(j, h). (j, edge m h)) (enumerate 0 (face_corners m))"
  unfolding corner_slots_def face_corners_def by (rule corner_slots_prefix[OF assms])

lemma slots_of_enumerate:
  "slots_of e (map (\<lambda>(j, h). (j, f h)) (enumerate 0 xs)) =
     filter (\<lambda>j. f (xs ! j) = e) [0..<length xs]"
proof (induction xs rule: rev_induct)
  case Nil
  then show ?case by (simp add: slots_of_def)
next
  case (snoc x xs)
  have "filter (\<lambda>j. f ((xs @ [x]) ! j) = e) [0..<length xs] =
        filter (\<lambda>j. f (xs ! j) = e) [0..<length xs]"
    by (rule filter_cong) (simp_all add: nth_append)
  then show ?case
    using snoc by (simp add: enumerate_append_eq slots_of_append slots_of_Cons slots_of_def)
qed

lemma length_slots_of_enumerate:
  "length (slots_of e (map (\<lambda>(j, h). (j, f h)) (enumerate n xs))) =
     length (filter (\<lambda>h. f h = e) xs)"
  by (induction xs arbitrary: n) (simp_all add: slots_of_def)

lemma fold_update_nth:
  "e < n \<Longrightarrow> n \<le> length X \<Longrightarrow> fold (\<lambda>i X'. X'[i := f i]) [0..<n] X ! e = f e"
proof (induction n)
  case 0
  then show ?case by simp
next
  case (Suc n)
  have l: "length (fold (\<lambda>i X'. X'[i := f i]) xs X) = length X" for xs
    by (induction xs arbitrary: X) simp_all
  show ?case
  proof (cases "e = n")
    case True
    then show ?thesis using Suc.prems by (simp add: l)
  next
    case False
    then show ?thesis using Suc by simp
  qed
qed

lemma fold_plus_sum_list:
  "fold (\<lambda>x r. r + g x) xs (a::real) = a + sum_list (map g xs)"
  by (induction xs arbitrary: a) simp_all

lemma update_X_nth:
  assumes "e < n_e" "length X = n_e"
  shows "update_X n_e rho EY Y D Z X ! e =
     sum_list (map (\<lambda>i. rho * (Y ! i + D ! i) + Z ! i) (valid_slots EY e))
       / ((rho + 1) * real (length (valid_slots EY e)))"
  using assms
  by (simp add: update_X_def fold_update_nth update_X_edge_def Let_def fold_plus_sum_list)

lemma compute_incidence_valid_slots:
  assumes faces: "\<forall>f<n_faces m. length (halfedges_f m f) = 3"
    and edges: "edges_ok m"
    and ci: "compute_incidence m g = (Z, S, Q, EY, NR)"
    and e: "e < n_edges m"
  shows "valid_slots EY e = filter (\<lambda>j. edge m (face_corners m ! j) = e) [0..<3 * n_faces m]"
    and "length (valid_slots EY e) = length (filter (\<lambda>h. edge m h = e) (face_corners m))"
proof -
  let ?cs = "corner_slots m"
  have cs: "?cs = map (\<lambda>(j, h). (j, edge m h)) (enumerate 0 (face_corners m))"
    by (rule corner_slots_eq[OF faces])
  have cnt: "length (slots_of e' ?cs) = length (filter (\<lambda>h. edge m h = e') (face_corners m))"
    for e'
    unfolding cs by (rule length_slots_of_enumerate)
  have le: "\<forall>e'<n_edges m. length (slots_of e' ([] @ ?cs)) \<le> 2"
    using edges by (simp add: cnt edges_ok_def)
  have rng: "\<forall>c \<in> set ?cs. snd c < n_edges m"
    using edges unfolding cs edges_ok_def by (auto simp: in_set_enumerate_eq)
  have "slots_inv (n_edges m) ([] @ ?cs)
          (fold register_slot ?cs (replicate (2 * n_edges m) (- 1), replicate (n_edges m) 0))"
    by (rule slots_inv_fold[OF slots_inv_init rng le])
  moreover have "incidence_slots (compute_incidence m g) = (EY, NR)"
    by (simp add: ci incidence_slots_def)
  ultimately have inv: "slots_inv (n_edges m) ?cs (EY, NR)"
    by (simp add: compute_incidence_slots)
  have le': "length (slots_of e ?cs) \<le> 2" using le e by simp
  have v: "valid_slots EY e = slots_of e ?cs"
    by (rule valid_slots_eq[OF inv e le'])
  have l: "length (face_corners m) = 3 * n_faces m"
    unfolding face_corners_def by (rule length_face_prefix[OF faces])
  show "valid_slots EY e = filter (\<lambda>j. edge m (face_corners m ! j) = e) [0..<3 * n_faces m]"
    unfolding v cs slots_of_enumerate l ..
  show "length (valid_slots EY e) = length (filter (\<lambda>h. edge m h = e) (face_corners m))"
    unfolding v by (rule cnt)
qed


lemma prepare_admm_data:
  assumes "compute_incidence m init_grad = (Z, S, Q, EY, NR)"
    and "prepare_integrate_geodesic_distance m param bfs init_grad = (tr, ad, s0)"
  shows "ad_n_faces ad = n_faces m" "ad_n_edges ad = n_edges m" "ad_Z ad = Z"
    "ad_Q ad = Q" "ad_edges_Y_index ad = EY" "ad_penalty ad = penalty param"
  using assms by (auto simp: prepare_integrate_geodesic_distance_def Let_def)

lemma admm_iteration_X:
  "var_X (admm_iteration ad s) =
     update_X (ad_n_edges ad) (ad_penalty ad) (ad_edges_Y_index ad)
       (update_Y (ad_n_faces ad) (prev_SX s) (var_D s) (ad_Q ad) (var_Y s)) (var_D s) (ad_Z ad)
       (var_X s)"
  by (simp add: admm_iteration_def update_dual_variables_def Let_def)

section \<open>The example meshes\<close>

lemma triangle_rings_ok: "rings_ok triangle_mesh"
  by (simp add: rings_ok_def triangle_mesh_def less_Suc_eq numeral_3_eq_3)

lemma triangle_connected: "connected triangle_mesh"
proof -
  let ?nb = "neighbours triangle_mesh"
  have nb: "set (?nb 0) = {Suc 0, Suc (Suc 0)}" "set (?nb (Suc 0)) = {Suc (Suc 0), 0}"
    "set (?nb (Suc (Suc 0))) = {0, Suc 0}"
    by (simp_all add: neighbours_def triangle_mesh_def eval_nat_numeral)
  have "v \<in> reachable ?nb {u}" if "u < 3" "v < 3" for u v
  proof -
    have u: "u \<in> reachable ?nb {u}" by (simp add: reachable.source)
    have "v = u \<or> v \<in> set (?nb u)"
      using that nb by (auto simp: less_Suc_eq numeral_3_eq_3)
    then show ?thesis using u reachable.step by blast
  qed
  then show ?thesis by (simp add: connected_def triangle_mesh_def)
qed

lemma triangle_sources_ok: "sources_ok triangle_mesh (default_parameters [0])"
  by (simp add: sources_ok_def triangle_mesh_def default_parameters_def)

lemma triangle_duplicate_bfs:
  "init_bfs_paths triangle_mesh (default_parameters [0, 0]) = Inl Index_Out_Of_Range"
  by (simp add: init_bfs_paths_def bfs_init_def bfs_source_def bfs_expand_def bfs_visit_def
      triangle_mesh_def default_parameters_def Let_def bfs_loop.simps)

lemma triangle_bfs:
  "init_bfs_paths triangle_mesh (default_parameters [0]) =
     Inr \<lparr>bfs_vertex_list = [0, 1, 2], transition_halfedge_idx = [- 1, 0, 5],
          bfs_laplacian_coef_addr = [0, 3, 6, 9], bfs_segment_addr_vec = [0, 1, 3, 3],
          visited = [True, True, True], next_front = [], bfs_id = 3\<rparr>"
  by code_simp

lemma triangle_transition:
  "compute_transition_from_vtx triangle_mesh [- 1, 0, 5] = [- 1, 0, 0]"
  "compute_transition_edge_idx triangle_mesh [- 1, 0, 5] = [- 1, - 1, 2]"
  by code_simp+

lemma triangle_integrate:
  "integrate_loop [0, 1, 3, 3] [0, 1, 2] [- 1, 0, 0] [- 1, - 1, 2] [1, 1, 1] 1 [0, 0, 0]
     = Inr [0, - 1, 1]"
  by code_simp



lemma two_triangles_rings_ok: "rings_ok two_triangles"
  by code_simp

lemma two_triangles_sources_ok: "sources_ok two_triangles (default_parameters [0])"
  by code_simp

lemma two_triangles_load_input: "load_input True two_triangles (default_parameters [0])"
  by code_simp

lemma two_triangles_unreached:
  "3 \<notin> reachable (neighbours two_triangles) (nat ` set (source_vertices (default_parameters [0])))"
proof -
  have "v < 3" if "v \<in> reachable (neighbours two_triangles) {0}" for v
    using that
  proof (induction rule: reachable.induct)
    case (source v)
    then show ?case by simp
  next
    case (step u v)
    then have "u = 0 \<or> u = 1 \<or> u = 2" by linarith
    then show ?case using step(2)
      by (auto simp: neighbours_def two_triangles_def)
  qed
  then show ?thesis by (auto simp: default_parameters_def)
qed

lemma two_triangles_bfs:
  "init_bfs_paths two_triangles (default_parameters [0]) =
     Inr \<lparr>bfs_vertex_list = [0, 1, 2, - 1, - 1, - 1],
          transition_halfedge_idx = [- 1, 0, 5, - 1, - 1, - 1],
          bfs_laplacian_coef_addr = [0, 3, 6, 9, 0, 0, 0],
          bfs_segment_addr_vec = [0, 1, 3, 3],
          visited = [True, True, True, False, False, False], next_front = [], bfs_id = 3\<rparr>"
  by code_simp

lemma triangle_face_corners: "face_corners triangle_mesh = [0, 2, 4]"
  by (simp add: face_corners_def triangle_mesh_def)

lemma triangle_faces_ok: "faces_ok triangle_mesh"
  unfolding faces_ok_def triangle_face_corners by (simp add: triangle_mesh_def)

lemma triangle_edges_ok: "edges_ok triangle_mesh"
  unfolding edges_ok_def triangle_face_corners
  by (simp add: triangle_mesh_def less_Suc_eq numeral_3_eq_3)

lemma triangle_slots:
  "filter (\<lambda>j. edge triangle_mesh (face_corners triangle_mesh ! j) = 0)
          [0..<3 * n_faces triangle_mesh] = [0]"
  unfolding triangle_face_corners by (simp add: triangle_mesh_def upt_rec)

lemma triangle_admm_Z: "ad_Z triangle_admm_data = [- 1, - 1, 2]"
  by code_simp

lemma triangle_admm_X: "length (var_X triangle_admm_state) = n_edges triangle_mesh"
  by code_simp

section \<open>The claims\<close>

text \<open>
  Claim C4 (BFS planner contracts). For a connected mesh whose vertex rings are
  well-formed and a non-empty list of distinct in-range sources, \<open>init_bfs_paths\<close> returns
  normally and: \<open>bfs_vertex_list\<close> is a permutation of the vertex set (distinct, with the
  set of all vertex indices as its elements) whose first \<open>|sources|\<close> entries are the
  sources in input order; for every non-source position \<open>i\<close> the stored transition
  halfedge ends at \<open>order[i]\<close> and starts at a vertex stored at an earlier position; and
  \<open>lap_addr[i+1] - lap_addr[i] = valence(order[i]) + 1\<close> at every position.
\<close>

theorem bfs_planner_contracts:
  assumes "rings_ok m" "sources_ok m param" "source_vertices param \<noteq> []" "connected m"
  shows "\<exists>s. init_bfs_paths m param = Inr s
     \<and> distinct (bfs_vertex_list s)
     \<and> set (bfs_vertex_list s) = int ` {..<n_vertices m}
     \<and> take (length (source_vertices param)) (bfs_vertex_list s) = source_vertices param
     \<and> (\<forall>i. length (source_vertices param) \<le> i \<longrightarrow> i < n_vertices m \<longrightarrow>
          (\<exists>h. transition_halfedge_idx s ! i = int h
              \<and> int (to_vertex m h) = bfs_vertex_list s ! i
              \<and> (\<exists>j < i. bfs_vertex_list s ! j = int (from_vertex m h))))
     \<and> (\<forall>i < n_vertices m.
          bfs_laplacian_coef_addr s ! (i + 1) - bfs_laplacian_coef_addr s ! i
            = int (valence m (nat (bfs_vertex_list s ! i))) + 1)"
proof -
  let ?srcs = "source_vertices param"
  from init_bfs_paths_connected[OF assms] obtain s where
    s: "init_bfs_paths m param = Inr s" "bfs_invs m ?srcs s" "bfs_id s = n_vertices m"
    by blast
  have sh: "inv_shape m s" and ad: "inv_addr m s" and tr: "inv_tree m ?srcs s"
    and ns: "length ?srcs \<le> bfs_id s"
    using s(2) by (auto simp: bfs_invs_def)
  have pl: "placed s = bfs_vertex_list s"
    using sh s(3) by (simp add: placed_def inv_shape_def)
  have d: "distinct (bfs_vertex_list s)"
    "\<forall>x \<in> set (bfs_vertex_list s). 0 \<le> x \<and> x < int (n_vertices m)"
    "length (bfs_vertex_list s) = n_vertices m"
    using sh pl by (auto simp: inv_shape_def)
  have "\<forall>v < n_vertices m. int v \<in> set (bfs_vertex_list s)"
    using full_set_length[OF d(1,2)] d(3) by blast
  moreover have "\<forall>x \<in> set (bfs_vertex_list s). x \<in> int ` {..<n_vertices m}"
  proof
    fix x assume "x \<in> set (bfs_vertex_list s)"
    with d(2) have "nat x < n_vertices m" "x = int (nat x)" by auto
    then show "x \<in> int ` {..<n_vertices m}" by blast
  qed
  ultimately have st: "set (bfs_vertex_list s) = int ` {..<n_vertices m}" by auto
  have tk: "take (length ?srcs) (bfs_vertex_list s) = ?srcs"
  proof (rule nth_equalityI)
    show "length (take (length ?srcs) (bfs_vertex_list s)) = length ?srcs"
      using ns s(3) d(3) by simp
  next
    fix i assume "i < length (take (length ?srcs) (bfs_vertex_list s))"
    then show "take (length ?srcs) (bfs_vertex_list s) ! i = ?srcs ! i"
      using tr ns by (simp add: inv_tree_def)
  qed
  have par: "\<forall>i. length ?srcs \<le> i \<longrightarrow> i < n_vertices m \<longrightarrow>
          (\<exists>h. transition_halfedge_idx s ! i = int h
              \<and> int (to_vertex m h) = bfs_vertex_list s ! i
              \<and> (\<exists>j < i. bfs_vertex_list s ! j = int (from_vertex m h)))"
    using tr s(3) unfolding inv_tree_def by simp
  have adr: "\<forall>i < n_vertices m.
          bfs_laplacian_coef_addr s ! (i + 1) - bfs_laplacian_coef_addr s ! i
            = int (valence m (nat (bfs_vertex_list s ! i))) + 1"
    using ad s(3) by (simp add: inv_addr_def)
  show ?thesis using s(1) d(1) st tk par adr by blast
qed

theorem bfs_planner_contracts_witness:
  "rings_ok triangle_mesh \<and> sources_ok triangle_mesh (default_parameters [0])
   \<and> source_vertices (default_parameters [0]) \<noteq> [] \<and> connected triangle_mesh
   \<and> (\<exists>s. init_bfs_paths triangle_mesh (default_parameters [0]) = Inr s
     \<and> distinct (bfs_vertex_list s)
     \<and> set (bfs_vertex_list s) = int ` {..<n_vertices triangle_mesh}
     \<and> take (length (source_vertices (default_parameters [0]))) (bfs_vertex_list s)
         = source_vertices (default_parameters [0])
     \<and> (\<forall>i. length (source_vertices (default_parameters [0])) \<le> i \<longrightarrow>
            i < n_vertices triangle_mesh \<longrightarrow>
          (\<exists>h. transition_halfedge_idx s ! i = int h
              \<and> int (to_vertex triangle_mesh h) = bfs_vertex_list s ! i
              \<and> (\<exists>j < i. bfs_vertex_list s ! j = int (from_vertex triangle_mesh h))))
     \<and> (\<forall>i < n_vertices triangle_mesh.
          bfs_laplacian_coef_addr s ! (i + 1) - bfs_laplacian_coef_addr s ! i
            = int (valence triangle_mesh (nat (bfs_vertex_list s ! i))) + 1))"
proof -
  have ne: "source_vertices (default_parameters [0]) \<noteq> []"
    by (simp add: default_parameters_def)
  show ?thesis
    using bfs_planner_contracts[OF triangle_rings_ok triangle_sources_ok ne triangle_connected]
      triangle_rings_ok triangle_sources_ok ne triangle_connected
    by blast
qed




text \<open>
  Claim C3 (input validation), as the code has it. When the mesh could not be read, or
  has zero vertices, faces or edges, or some source index lies outside \<open>[0, n_v)\<close>,
  \<open>solve\<close> returns false at once and leaves the distance vector as it was. The code has
  no test for duplicate sources: see the counterexample below.
\<close>

theorem solve_rejects_invalid_input:
  assumes "\<not> read_ok \<or> n_vertices m = 0 \<or> n_faces m = 0 \<or> n_edges m = 0
           \<or> \<not> sources_in_range m param"
  shows "solve read_ok m param geod0 = Inr (False, geod0)"
proof -
  have "\<not> sources_in_range m param \<Longrightarrow>
        \<exists>i < length (source_vertices param).
            source_vertices param ! i < 0
            \<or> source_vertices param ! i \<ge> int (n_vertices m)"
    unfolding sources_in_range_def by (metis in_set_conv_nth not_le)
  with assms have "\<not> load_input read_ok m param"
    by (auto simp: load_input_def)
  then show ?thesis by (simp add: solve_def)
qed

theorem solve_rejects_invalid_input_witness:
  "\<not> sources_in_range triangle_mesh (default_parameters [0, 5])
   \<and> solve True triangle_mesh (default_parameters [0, 5]) [] = Inr (False, [])"
proof -
  have h: "\<not> sources_in_range triangle_mesh (default_parameters [0, 5])"
    by (simp add: triangle_mesh_def default_parameters_def sources_in_range_def)
  then have "\<not> True \<or> n_vertices triangle_mesh = 0 \<or> n_faces triangle_mesh = 0
     \<or> n_edges triangle_mesh = 0
     \<or> \<not> sources_in_range triangle_mesh (default_parameters [0, 5])" by simp
  from solve_rejects_invalid_input[OF this] h show ?thesis by simp
qed

text \<open>
  The claim as stated also demands an error for a duplicate source. On the single
  triangle with the source list \<open>[0, 0]\<close> \<open>load_input\<close> succeeds and \<open>solve\<close> does not
  return false: the traversal then writes past the end of \<open>bfs_vertex_list\<close>.
\<close>

theorem duplicate_source_counterexample:
  "\<not> distinct (source_vertices (default_parameters [0, 0]))
   \<and> load_input True triangle_mesh (default_parameters [0, 0])
   \<and> solve True triangle_mesh (default_parameters [0, 0]) [] \<noteq> Inr (False, [])"
proof -
  have l: "load_input True triangle_mesh (default_parameters [0, 0])"
    by (simp add: load_input_def triangle_mesh_def default_parameters_def less_Suc_eq
        nth_Cons')
  have "solve True triangle_mesh (default_parameters [0, 0]) [] = Inl Index_Out_Of_Range"
    using solve_fault[OF l triangle_duplicate_bfs] .
  with l show ?thesis by (simp add: default_parameters_def)
qed

text \<open>
  Claim C7 (the Y-update is the projection onto the curl-free constraint). For every
  face \<open>f\<close>, with \<open>y = SX_prev[3f..3f+2] - D[3f..3f+2]\<close> and \<open>q = Q[3f..3f+2]\<close>, the update
  sets \<open>Y[3f..3f+2] = y - ((q . y) / 3) q\<close>; and when the entries of \<open>q\<close> are \<open>-1\<close> or \<open>+1\<close>
  the signed sum \<open>q . Y[3f..3f+2]\<close> is zero after the update (in exact arithmetic).
\<close>

theorem update_Y_projection:
  assumes "length Y = 3 * n_f" and "f < n_f"
    and "Y' = update_Y n_f SXp D Q Y"
    and "y0 = SXp ! (3 * f) - D ! (3 * f)" and "y1 = SXp ! (3 * f + 1) - D ! (3 * f + 1)"
    and "y2 = SXp ! (3 * f + 2) - D ! (3 * f + 2)"
    and "q0 = real_of_int (Q ! (3 * f))" and "q1 = real_of_int (Q ! (3 * f + 1))"
    and "q2 = real_of_int (Q ! (3 * f + 2))"
    and "mu = (q0 * y0 + q1 * y1 + q2 * y2) / 3"
  shows "Y' ! (3 * f) = y0 - mu * q0 \<and> Y' ! (3 * f + 1) = y1 - mu * q1
         \<and> Y' ! (3 * f + 2) = y2 - mu * q2
         \<and> ((\<forall>k < 3. Q ! (3 * f + k) = - 1 \<or> Q ! (3 * f + k) = 1) \<longrightarrow>
              q0 * Y' ! (3 * f) + q1 * Y' ! (3 * f + 1) + q2 * Y' ! (3 * f + 2) = 0)"
proof -
  have p: "projected SXp D Q f = (y0 - mu * q0, y1 - mu * q1, y2 - mu * q2)"
    using assms(4-10) by (simp add: projected_def Let_def)
  have e: "Y' ! (3 * f) = y0 - mu * q0" "Y' ! (3 * f + 1) = y1 - mu * q1"
    "Y' ! (3 * f + 2) = y2 - mu * q2"
    using update_Y_nth[OF assms(1,2), of SXp D Q] p assms(3) by simp_all
  have "q0 * Y' ! (3 * f) + q1 * Y' ! (3 * f + 1) + q2 * Y' ! (3 * f + 2) = 0"
    if q: "\<forall>k < 3. Q ! (3 * f + k) = - 1 \<or> Q ! (3 * f + k) = 1"
  proof -
    have "Q ! (3 * f) = - 1 \<or> Q ! (3 * f) = 1"
      "Q ! (3 * f + 1) = - 1 \<or> Q ! (3 * f + 1) = 1"
      "Q ! (3 * f + 2) = - 1 \<or> Q ! (3 * f + 2) = 1"
      using q[rule_format, of 0] q[rule_format, of 1] q[rule_format, of 2] by simp_all
    then have sq: "q0 * q0 = 1" "q1 * q1 = 1" "q2 * q2 = 1"
      using assms(7-9) sign_square by simp_all
    have "q0 * (y0 - mu * q0) + q1 * (y1 - mu * q1) + q2 * (y2 - mu * q2)
          = (q0 * y0 + q1 * y1 + q2 * y2) - mu * (q0 * q0 + q1 * q1 + q2 * q2)"
      by (simp add: algebra_simps)
    also have "\<dots> = 0" using sq assms(10) by simp
    finally show ?thesis using e by simp
  qed
  with e show ?thesis by blast
qed

theorem update_Y_projection_witness:
  "length [0, 0, 0 :: real] = 3 * 1 \<and> (0 :: nat) < 1
   \<and> update_Y 1 [1, 2, 3] [0, 0, 0] [1, - 1, 1] [0, 0, 0] ! 0 = 1 / 3
   \<and> update_Y 1 [1, 2, 3] [0, 0, 0] [1, - 1, 1] [0, 0, 0] ! 1 = 8 / 3
   \<and> update_Y 1 [1, 2, 3] [0, 0, 0] [1, - 1, 1] [0, 0, 0] ! 2 = 7 / 3
   \<and> 1 * update_Y 1 [1, 2, 3] [0, 0, 0] [1, - 1, 1] [0, 0, 0] ! 0
       + (- 1) * update_Y 1 [1, 2, 3] [0, 0, 0] [1, - 1, 1] [0, 0, 0] ! 1
       + 1 * update_Y 1 [1, 2, 3] [0, 0, 0] [1, - 1, 1] [0, 0, 0] ! 2 = 0"
proof -
  have l: "length [0, 0, 0 :: real] = 3 * 1" and f: "(0 :: nat) < 1" by simp_all
  have q: "\<forall>k < 3. [1, - 1, 1 :: int] ! (3 * 0 + k) = - 1 \<or> [1, - 1, 1 :: int] ! (3 * 0 + k) = 1"
    by (simp add: nth_Cons' less_Suc_eq numeral_3_eq_3)
  from update_Y_projection[OF l f refl refl refl refl refl refl refl refl,
      of "[1, 2, 3]" "[0, 0, 0]" "[1, - 1, 1]"] q
  show ?thesis by (simp add: eval_nat_numeral)
qed

text \<open>
  Claim C1 (sign convention of the tree integration), as the code has it. For a
  connected mesh with a non-empty list of distinct in-range sources and any edge vector
  \<open>X\<close>, the integration loop returns a vector \<open>dist\<close> in which, for every non-source BFS
  position \<open>i\<close>, with \<open>base = dist[transition_from[i]]\<close> and \<open>e = transition_edge_idx[i]\<close>:
  if \<open>e \<ge> 0\<close> then \<open>dist[order[i]] = base + X[e]\<close>, and otherwise
  \<open>dist[order[i]] = base - X[-e - 1]\<close>. The signs are the opposite of those in the
  claim as stated.
\<close>

theorem tree_integration_signs:
  assumes "rings_ok m" "sources_ok m param" "source_vertices param \<noteq> []" "connected m"
  shows "\<exists>s dist. init_bfs_paths m param = Inr s
     \<and> integrate_loop (bfs_segment_addr_vec s) (bfs_vertex_list s)
          (compute_transition_from_vtx m (transition_halfedge_idx s))
          (compute_transition_edge_idx m (transition_halfedge_idx s)) X 1
          (replicate (n_vertices m) 0) = Inr dist
     \<and> (\<forall>i. length (source_vertices param) \<le> i \<longrightarrow> i < n_vertices m \<longrightarrow>
          dist ! nat (bfs_vertex_list s ! i) =
            (if 0 \<le> compute_transition_edge_idx m (transition_halfedge_idx s) ! i
             then dist ! nat (compute_transition_from_vtx m (transition_halfedge_idx s) ! i)
                  + X ! nat (compute_transition_edge_idx m (transition_halfedge_idx s) ! i)
             else dist ! nat (compute_transition_from_vtx m (transition_halfedge_idx s) ! i)
                  - X ! nat (- (compute_transition_edge_idx m (transition_halfedge_idx s) ! i)
                             - 1)))"
proof -
  let ?srcs = "source_vertices param" and ?n = "n_vertices m"
  from bfs_tree_facts[OF assms(1-4)] obtain s where
    s: "init_bfs_paths m param = Inr s" "length (bfs_vertex_list s) = ?n"
      "distinct (bfs_vertex_list s)"
      "\<forall>x \<in> set (bfs_vertex_list s). 0 \<le> x \<and> x < int ?n"
      "\<forall>i. length ?srcs \<le> i \<longrightarrow> i < ?n \<longrightarrow>
          (\<exists>h. transition_halfedge_idx s ! i = int h
              \<and> int (to_vertex m h) = bfs_vertex_list s ! i
              \<and> (\<exists>j < i. bfs_vertex_list s ! j = int (from_vertex m h)))"
      "sorted (bfs_segment_addr_vec s)" "\<forall>x \<in> set (bfs_segment_addr_vec s). 0 \<le> x"
      "3 \<le> length (bfs_segment_addr_vec s)"
      "bfs_segment_addr_vec s ! 1 = int (length ?srcs)"
      "last (bfs_segment_addr_vec s) = int ?n"
    by blast
  let ?ord = "bfs_vertex_list s" and ?zero = "replicate ?n (0::real)"
  let ?tf = "compute_transition_from_vtx m (transition_halfedge_idx s)"
  let ?te = "compute_transition_edge_idx m (transition_halfedge_idx s)"
  let ?dist = "fold (integrate_vertex ?ord ?tf ?te X) [length ?srcs..<?n] ?zero"
  have k: "1 + 1 < length (bfs_segment_addr_vec s)" using s(8) by simp
  have run: "integrate_loop (bfs_segment_addr_vec s) ?ord ?tf ?te X 1 ?zero = Inr ?dist"
    using integrate_loop_eq[OF s(6,7) k, where ord = ?ord and tf = ?tf and te = ?te
        and X = X and d = ?zero] s(9,10)
    by simp
  have rng: "\<forall>x \<in> set ?ord. 0 \<le> x \<and> x < int (length ?zero)" using s(4) by simp
  have step: "?dist ! nat (?ord ! i) =
            (if 0 \<le> ?te ! i then ?dist ! nat (?tf ! i) + X ! nat (?te ! i)
             else ?dist ! nat (?tf ! i) - X ! nat (- (?te ! i) - 1))"
    if i: "length ?srcs \<le> i" "i < ?n" for i
  proof -
    from s(5) i obtain h j where h: "transition_halfedge_idx s ! i = int h"
      "j < i" "?ord ! j = int (from_vertex m h)"
      by blast
    have tfi: "?tf ! i = ?ord ! j"
      using transition_tables_nth(1)[OF i(2) h(1)] h(3) by simp
    have il: "i < length ?ord" using i(2) s(2) by simp
    have "- (?te ! i + 1) = - (?te ! i) - 1" by simp
    then show ?thesis
      using fold_integrate_step[OF s(3) rng i(1) il h(2) tfi, where te = ?te and X = X] s(2)
      by simp
  qed
  show ?thesis using s(1) run step by blast
qed

theorem tree_integration_signs_witness:
  "rings_ok triangle_mesh \<and> sources_ok triangle_mesh (default_parameters [0])
   \<and> source_vertices (default_parameters [0]) \<noteq> [] \<and> connected triangle_mesh
   \<and> integrate_loop [0, 1, 3, 3] [0, 1, 2] [- 1, 0, 0] [- 1, - 1, 2] [1, 1, 1] 1 [0, 0, 0]
       = Inr [0, - 1, 1]
   \<and> [0, - 1, 1 :: real] ! 1 = [0, - 1, 1] ! 0 - [1, 1, 1] ! 0
   \<and> [0, - 1, 1 :: real] ! 2 = [0, - 1, 1] ! 0 + [1, 1, 1] ! 2"
proof -
  have ne: "source_vertices (default_parameters [0]) \<noteq> []"
    and ls: "length (source_vertices (default_parameters [0])) = 1"
    and nv: "n_vertices triangle_mesh = 3"
    by (simp_all add: default_parameters_def triangle_mesh_def)
  from tree_integration_signs[OF triangle_rings_ok triangle_sources_ok ne triangle_connected,
      of "[1, 1, 1]"]
  obtain dist where
    d: "integrate_loop [0, 1, 3, 3] [0, 1, 2] [- 1, 0, 0] [- 1, - 1, 2] [1, 1, 1] 1
          (replicate 3 0) = Inr dist"
      "\<forall>i. 1 \<le> i \<longrightarrow> i < 3 \<longrightarrow>
          dist ! nat ([0, 1, 2] ! i) =
            (if 0 \<le> [- 1, - 1, 2 :: int] ! i
             then dist ! nat ([- 1, 0, 0] ! i) + [1, 1, 1] ! nat ([- 1, - 1, 2] ! i)
             else dist ! nat ([- 1, 0, 0] ! i) - [1, 1, 1] ! nat (- ([- 1, - 1, 2] ! i) - 1))"
    unfolding triangle_bfs ls nv
    by (auto simp: triangle_transition)
  have r: "replicate 3 (0::real) = [0, 0, 0]" by (simp add: eval_nat_numeral)
  from d(1) triangle_integrate have e: "dist = [0, - 1, 1]" by (simp add: r)
  from d(2)[rule_format, of 1] d(2)[rule_format, of 2] e
  have "[0, - 1, 1 :: real] ! 1 = [0, - 1, 1] ! 0 - [1, 1, 1] ! 0"
    "[0, - 1, 1 :: real] ! 2 = [0, - 1, 1] ! 0 + [1, 1, 1] ! 2"
    by simp_all
  then show ?thesis
    using triangle_rings_ok triangle_sources_ok ne triangle_connected triangle_integrate
    by simp
qed

text \<open>
  The claim as stated, with \<open>base - X[e]\<close> for \<open>e \<ge> 0\<close> and \<open>base + X[-e - 1]\<close> otherwise,
  fails on the single triangle with source 0 and \<open>X = [1, 1, 1]\<close>: position 2 has
  \<open>e = 2\<close> and receives \<open>0 + 1\<close>, position 1 has \<open>e = -1\<close> and receives \<open>0 - 1\<close>.
\<close>

theorem tree_integration_signs_counterexample:
  "init_bfs_paths triangle_mesh (default_parameters [0]) =
     Inr \<lparr>bfs_vertex_list = [0, 1, 2], transition_halfedge_idx = [- 1, 0, 5],
          bfs_laplacian_coef_addr = [0, 3, 6, 9], bfs_segment_addr_vec = [0, 1, 3, 3],
          visited = [True, True, True], next_front = [], bfs_id = 3\<rparr>
   \<and> compute_transition_from_vtx triangle_mesh [- 1, 0, 5] = [- 1, 0, 0]
   \<and> compute_transition_edge_idx triangle_mesh [- 1, 0, 5] = [- 1, - 1, 2]
   \<and> integrate_loop [0, 1, 3, 3] [0, 1, 2] [- 1, 0, 0] [- 1, - 1, 2] [1, 1, 1] 1 [0, 0, 0]
       = Inr [0, - 1, 1]
   \<and> [0, - 1, 1 :: real] ! 2 \<noteq> [0, - 1, 1] ! 0 - [1, 1, 1] ! 2
   \<and> [0, - 1, 1 :: real] ! 1 \<noteq> [0, - 1, 1] ! 0 + [1, 1, 1] ! 0"
  using triangle_bfs triangle_transition triangle_integrate by simp

text \<open>
  Claim C5 (termination of the heat Gauss-Seidel loop). The heat system is the one
  \<open>gauss_seidel_init_gradients\<close> builds, so its threshold is
  \<open>max(1e-16, initial_residual_norm * heat_solver_eps)\<close> with the residual norm of the
  initial heat vector. With at least two layers, a non-negative \<open>heat_solver_max_iter\<close>
  and a non-zero check frequency, the loop returns after \<open>K \<le> heat_solver_max_iter\<close>
  outer iterations, with \<open>K \<ge> 1\<close> when the maximum is positive. When \<open>K\<close> is below the
  maximum, \<open>K\<close> is a multiple of the check frequency and the residual norm after \<open>K\<close>
  outer iterations is at most the threshold; \<open>K\<close> is below the maximum exactly when some
  outer-iteration count below the maximum passes that test, and no count before \<open>K\<close>
  passes it. The heat vector returned is the one after \<open>K\<close> outer iterations (with a
  maximum of zero: the vector after the update of the first layer alone).
\<close>

theorem heat_gauss_seidel_termination:
  assumes hs: "hs = make_heat_system m param bfs coef vertex_area"
    and d0: "d0 = initial_heat param hs"
    and seg: "3 \<le> length (bfs_segment_addr_vec bfs)"
    and mx: "0 \<le> heat_solver_max_iter param"
    and fr: "heat_solver_convergence_check_frequency param \<noteq> 0"
  shows "hs_eps hs = max (1 / 10 ^ 16) (heat_residual_norm hs d0 * heat_solver_eps param)
     \<and> (\<exists>K d. gs_loop hs 0 0 d0 = Inr (K, d)
          \<and> 0 \<le> K \<and> K \<le> heat_solver_max_iter param
          \<and> (0 < heat_solver_max_iter param \<longrightarrow> 0 < K \<and> d = heat_after hs (nat K) d0)
          \<and> (heat_solver_max_iter param = 0 \<longrightarrow> d = gs_update_segment hs 0 d0)
          \<and> (K < heat_solver_max_iter param \<longrightarrow> heat_converged_at hs d0 K)
          \<and> (K < heat_solver_max_iter param \<longleftrightarrow>
                (\<exists>k. 0 < k \<and> k < heat_solver_max_iter param \<and> heat_converged_at hs d0 k))
          \<and> (\<forall>k. 0 < k \<and> k < K \<longrightarrow> \<not> heat_converged_at hs d0 k))"
proof -
  have eps: "hs_eps hs = max (1 / 10 ^ 16) (heat_residual_norm hs d0 * heat_solver_eps param)"
    unfolding hs d0 by (rule heat_threshold_eq)
  have sg: "hs_segment_addr hs = bfs_segment_addr_vec bfs"
    and mi: "hs_max_iter hs = heat_solver_max_iter param"
    unfolding hs by (rule make_heat_system_fields)+
  have s0: "0 + 1 < length (hs_segment_addr hs)" using seg sg by simp
  have loop: "\<exists>K d. gs_loop hs 0 0 d0 = Inr (K, d)
          \<and> 0 \<le> K \<and> K \<le> heat_solver_max_iter param
          \<and> (0 < heat_solver_max_iter param \<longrightarrow> 0 < K \<and> d = heat_after hs (nat K) d0)
          \<and> (heat_solver_max_iter param = 0 \<longrightarrow> d = gs_update_segment hs 0 d0)
          \<and> (K < heat_solver_max_iter param \<longrightarrow> heat_converged_at hs d0 K)
          \<and> (K < heat_solver_max_iter param \<longleftrightarrow>
                (\<exists>k. 0 < k \<and> k < heat_solver_max_iter param \<and> heat_converged_at hs d0 k))
          \<and> (\<forall>k. 0 < k \<and> k < K \<longrightarrow> \<not> heat_converged_at hs d0 k)"
  proof (cases "heat_solver_max_iter param = 0")
    case True
    have "0 + 2 \<noteq> length (hs_segment_addr hs)" using seg sg by simp
    then have "gs_loop hs 0 0 d0 = Inr (0, gs_update_segment hs 0 d0)"
      using True mi by (simp add: gs_loop_unfold[OF s0])
    moreover have "\<forall>k. 0 < k \<and> k < (0::int) \<longrightarrow> \<not> heat_converged_at hs d0 k"
      by (intro allI impI, elim conjE) linarith
    moreover have "\<not> (\<exists>k. 0 < k \<and> k < (0::int) \<and> heat_converged_at hs d0 k)"
      by (intro notI, elim exE conjE) linarith
    ultimately show ?thesis using True by simp
  next
    case False
    then have pos: "0 < hs_max_iter hs" using mx mi by simp
    have two: "2 \<le> length (hs_segment_addr hs)" using seg sg by simp
    from gs_loop_outer[OF two order_refl pos, of d0] obtain K where
      K: "gs_loop hs 0 0 d0 = Inr (K, heat_after hs (nat (K - 0)) d0)"
        "gs_stops_at hs 0 d0 K"
      by blast
    have c: "0 < K \<and> K \<le> hs_max_iter hs
       \<and> (\<forall>k. 0 < k \<and> k < K \<longrightarrow>
           \<not> (k mod hs_check_frequency hs = 0
               \<and> heat_residual_norm hs (heat_after hs (nat (k - 0)) d0) \<le> hs_eps hs))
       \<and> (K < hs_max_iter hs \<longrightarrow>
           K mod hs_check_frequency hs = 0
           \<and> heat_residual_norm hs (heat_after hs (nat (K - 0)) d0) \<le> hs_eps hs)"
      using K(2) unfolding gs_stops_at_def .
    note K1 = c[THEN conjunct1] and K2 = c[THEN conjunct2, THEN conjunct1]
      and bef = c[THEN conjunct2, THEN conjunct2, THEN conjunct1, rule_format]
      and aft = c[THEN conjunct2, THEN conjunct2, THEN conjunct2, rule_format]
    have before: "\<not> heat_converged_at hs d0 k" if "0 < k \<and> k < K" for k
      using bef[OF that] unfolding heat_converged_at_def by simp
    have after: "heat_converged_at hs d0 K" if "K < hs_max_iter hs"
      using aft[OF that] unfolding heat_converged_at_def by simp
    have iff: "K < heat_solver_max_iter param \<longleftrightarrow>
                (\<exists>k. 0 < k \<and> k < heat_solver_max_iter param \<and> heat_converged_at hs d0 k)"
    proof
      assume "K < heat_solver_max_iter param"
      then show "\<exists>k. 0 < k \<and> k < heat_solver_max_iter param \<and> heat_converged_at hs d0 k"
        using after K1 mi by (intro exI[of _ K]) simp
    next
      assume "\<exists>k. 0 < k \<and> k < heat_solver_max_iter param \<and> heat_converged_at hs d0 k"
      then obtain k where k: "0 < k" "k < heat_solver_max_iter param"
        "heat_converged_at hs d0 k"
        by (elim exE conjE)
      show "K < heat_solver_max_iter param"
      proof (rule ccontr)
        assume "\<not> K < heat_solver_max_iter param"
        then have "k < K" using k(2) by linarith
        then have "\<not> heat_converged_at hs d0 k" by (rule before[OF conjI[OF k(1)]])
        then show False using k(3) by (rule notE)
      qed
    qed
    have r1: "gs_loop hs 0 0 d0 = Inr (K, heat_after hs (nat K) d0)" using K(1) by simp
    have r2: "0 \<le> K" using K1 by linarith
    have r3: "K \<le> heat_solver_max_iter param" using K2 mi by simp
    have r4: "0 < heat_solver_max_iter param \<longrightarrow>
                0 < K \<and> heat_after hs (nat K) d0 = heat_after hs (nat K) d0"
      using K1 by simp
    have r5: "heat_solver_max_iter param = 0 \<longrightarrow>
                heat_after hs (nat K) d0 = gs_update_segment hs 0 d0"
      using False by simp
    have r6: "K < heat_solver_max_iter param \<longrightarrow> heat_converged_at hs d0 K"
      using after mi by simp
    have r7: "\<forall>k. 0 < k \<and> k < K \<longrightarrow> \<not> heat_converged_at hs d0 k"
      using before by (intro allI impI)
    show ?thesis
      by (intro exI[of _ K] exI[of _ "heat_after hs (nat K) d0"] conjI r1 r2 r3 r4 r5 r6 iff r7)
  qed
  show ?thesis using eps loop by (rule conjI)
qed

theorem heat_gauss_seidel_termination_witness:
  "3 \<le> length (bfs_segment_addr_vec triangle_bfs_state)
   \<and> 0 \<le> heat_solver_max_iter (default_parameters [0])
   \<and> heat_solver_convergence_check_frequency (default_parameters [0]) \<noteq> 0
   \<and> (\<exists>K d. gs_loop triangle_heat_system 0 0
                (initial_heat (default_parameters [0]) triangle_heat_system) = Inr (K, d)
          \<and> 0 < K \<and> K \<le> 1000
          \<and> d = heat_after triangle_heat_system (nat K)
                  (initial_heat (default_parameters [0]) triangle_heat_system))"
proof -
  have h: "3 \<le> length (bfs_segment_addr_vec triangle_bfs_state)"
    "0 \<le> heat_solver_max_iter (default_parameters [0])"
    "heat_solver_convergence_check_frequency (default_parameters [0]) \<noteq> 0"
    by (simp_all add: triangle_bfs_state_def default_parameters_def)
  have mx: "heat_solver_max_iter (default_parameters [0]) = 1000"
    by (simp add: default_parameters_def)
  from heat_gauss_seidel_termination[OF triangle_heat_system_def refl h]
  obtain K d where
    "gs_loop triangle_heat_system 0 0
       (initial_heat (default_parameters [0]) triangle_heat_system) = Inr (K, d)"
    "K \<le> heat_solver_max_iter (default_parameters [0])"
    "0 < heat_solver_max_iter (default_parameters [0]) \<longrightarrow>
       0 < K \<and> d = heat_after triangle_heat_system (nat K)
                  (initial_heat (default_parameters [0]) triangle_heat_system)"
    by (elim conjE exE)
  then have "\<exists>K d. gs_loop triangle_heat_system 0 0
                (initial_heat (default_parameters [0]) triangle_heat_system) = Inr (K, d)
          \<and> 0 < K \<and> K \<le> 1000
          \<and> d = heat_after triangle_heat_system (nat K)
                  (initial_heat (default_parameters [0]) triangle_heat_system)"
    unfolding mx by (intro exI[of _ K] exI[of _ d]) simp
  with h show ?thesis by simp
qed



text \<open>
  Claim C2 (vertices the traversal does not reach), as the code has it. There is no
  failure path for a disconnected mesh: when some vertex cannot be reached from the
  sources, \<open>init_bfs_paths\<close> still returns normally, with \<open>bfs_id\<close> below \<open>n_vertices\<close>
  and every position of the order from \<open>bfs_id\<close> on left at \<open>-1\<close>. \<open>solve\<close> does not
  return false; the Laplacian loop then reads the vertex handle \<open>-1\<close> at position
  \<open>bfs_id\<close>, which the embedding reports as \<open>Index_Out_Of_Range\<close>.
\<close>

theorem unreached_vertices_not_detected:
  assumes ro: "rings_ok mesh0" and so: "sources_ok mesh0 param"
    and li: "load_input read_ok mesh0 param"
    and un: "\<exists>v < n_vertices mesh0.
               v \<notin> reachable (neighbours mesh0) (nat ` set (source_vertices param))"
  shows "\<exists>s. init_bfs_paths mesh0 param = Inr s
           \<and> bfs_id s < n_vertices mesh0
           \<and> (\<forall>i. bfs_id s \<le> i \<longrightarrow> i < n_vertices mesh0 \<longrightarrow> bfs_vertex_list s ! i = - 1)
           \<and> solve read_ok mesh0 param geod0 = Inl Index_Out_Of_Range"
proof -
  from init_bfs_paths_unreached[OF ro so un] obtain s where
    s: "init_bfs_paths mesh0 param = Inr s" "bfs_invs mesh0 (source_vertices param) s"
      "bfs_id s < n_vertices mesh0"
    by blast
  have tail: "\<forall>i. bfs_id s \<le> i \<longrightarrow> i < n_vertices mesh0 \<longrightarrow> bfs_vertex_list s ! i = - 1"
    using s(2) by (simp add: bfs_invs_def inv_shape_def)
  then have neg: "bfs_vertex_list s ! bfs_id s < 0" using s(3) by simp
  from solve_unfold[OF li, of geod0] obtain p k where
    u: "solve read_ok mesh0 param geod0 =
     (case init_bfs_paths mesh0 param of
        Inl e \<Rightarrow> Inl e
      | Inr bfs \<Rightarrow>
          (case gauss_seidel_init_gradients (mesh0\<lparr>position := p\<rparr>) param bfs of
             Inl e \<Rightarrow> Inl e
           | Inr init_grad \<Rightarrow>
               (case integrate_geodesic_distance (n_vertices mesh0) k
                      (bfs_segment_addr_vec bfs) (bfs_vertex_list bfs)
                      (fst (fst (prepare_integrate_geodesic_distance
                                   (mesh0\<lparr>position := p\<rparr>) param bfs init_grad)))
                      (snd (fst (prepare_integrate_geodesic_distance
                                   (mesh0\<lparr>position := p\<rparr>) param bfs init_grad)))
                      (var_X (compute_integrable_gradients
                         (fst (snd (prepare_integrate_geodesic_distance
                                   (mesh0\<lparr>position := p\<rparr>) param bfs init_grad)))
                         (snd (snd (prepare_integrate_geodesic_distance
                                   (mesh0\<lparr>position := p\<rparr>) param bfs init_grad))))) of
                  Inl e \<Rightarrow> Inl e
                | Inr d \<Rightarrow> Inr (True, d))))"
    by blast
  have i: "bfs_id s < n_vertices (mesh0\<lparr>position := p\<rparr>)" using s(3) by simp
  have "solve read_ok mesh0 param geod0 = Inl Index_Out_Of_Range"
    unfolding u by (simp add: s(1) gauss_seidel_fault[OF i neg])
  with s(1,3) tail show ?thesis by blast
qed

theorem unreached_vertices_not_detected_witness:
  "rings_ok two_triangles \<and> sources_ok two_triangles (default_parameters [0])
   \<and> load_input True two_triangles (default_parameters [0])
   \<and> (3::nat) < n_vertices two_triangles
   \<and> 3 \<notin> reachable (neighbours two_triangles)
             (nat ` set (source_vertices (default_parameters [0])))
   \<and> (\<exists>s. init_bfs_paths two_triangles (default_parameters [0]) = Inr s
           \<and> bfs_id s < n_vertices two_triangles
           \<and> solve True two_triangles (default_parameters [0]) [] = Inl Index_Out_Of_Range)"
proof -
  have n: "(3::nat) < n_vertices two_triangles" by (simp add: two_triangles_def)
  then have un: "\<exists>v < n_vertices two_triangles.
      v \<notin> reachable (neighbours two_triangles)
            (nat ` set (source_vertices (default_parameters [0])))"
    using two_triangles_unreached by blast
  from unreached_vertices_not_detected[OF two_triangles_rings_ok two_triangles_sources_ok
      two_triangles_load_input un, of "[]"]
  have "\<exists>s. init_bfs_paths two_triangles (default_parameters [0]) = Inr s
           \<and> bfs_id s < n_vertices two_triangles
           \<and> solve True two_triangles (default_parameters [0]) [] = Inl Index_Out_Of_Range"
    by blast
  then show ?thesis
    using two_triangles_rings_ok two_triangles_sources_ok two_triangles_load_input n
      two_triangles_unreached
    by simp
qed

text \<open>
  The claim as stated asks for a failure reported by \<open>solve\<close>. On two triangles that
  share no vertex, with source 0, the input is accepted, the traversal returns normally
  with three positions unassigned, and \<open>solve\<close> does not return false.
\<close>

theorem disconnected_mesh_counterexample:
  "init_bfs_paths two_triangles (default_parameters [0]) =
     Inr \<lparr>bfs_vertex_list = [0, 1, 2, - 1, - 1, - 1],
          transition_halfedge_idx = [- 1, 0, 5, - 1, - 1, - 1],
          bfs_laplacian_coef_addr = [0, 3, 6, 9, 0, 0, 0],
          bfs_segment_addr_vec = [0, 1, 3, 3],
          visited = [True, True, True, False, False, False], next_front = [], bfs_id = 3\<rparr>
   \<and> load_input True two_triangles (default_parameters [0])
   \<and> solve True two_triangles (default_parameters [0]) [] = Inl Index_Out_Of_Range
   \<and> solve True two_triangles (default_parameters [0]) [] \<noteq> Inr (False, [])"
proof -
  have i: "3 < n_vertices two_triangles" by (simp add: two_triangles_def)
  have neg: "bfs_vertex_list
      \<lparr>bfs_vertex_list = [0, 1, 2, - 1, - 1, - 1],
          transition_halfedge_idx = [- 1, 0, 5, - 1, - 1, - 1],
          bfs_laplacian_coef_addr = [0, 3, 6, 9, 0, 0, 0],
          bfs_segment_addr_vec = [0, 1, 3, 3],
          visited = [True, True, True, False, False, False], next_front = [], bfs_id = 3\<rparr>
      ! 3 < 0"
    by (simp add: eval_nat_numeral)
  from solve_unfold[OF two_triangles_load_input, of "[]"] obtain p k where
    u: "solve True two_triangles (default_parameters [0]) [] =
     (case init_bfs_paths two_triangles (default_parameters [0]) of
        Inl e \<Rightarrow> Inl e
      | Inr bfs \<Rightarrow>
          (case gauss_seidel_init_gradients (two_triangles\<lparr>position := p\<rparr>)
                  (default_parameters [0]) bfs of
             Inl e \<Rightarrow> Inl e
           | Inr init_grad \<Rightarrow>
               (case integrate_geodesic_distance (n_vertices two_triangles) k
                      (bfs_segment_addr_vec bfs) (bfs_vertex_list bfs)
                      (fst (fst (prepare_integrate_geodesic_distance
                           (two_triangles\<lparr>position := p\<rparr>) (default_parameters [0]) bfs
                           init_grad)))
                      (snd (fst (prepare_integrate_geodesic_distance
                           (two_triangles\<lparr>position := p\<rparr>) (default_parameters [0]) bfs
                           init_grad)))
                      (var_X (compute_integrable_gradients
                         (fst (snd (prepare_integrate_geodesic_distance
                           (two_triangles\<lparr>position := p\<rparr>) (default_parameters [0]) bfs
                           init_grad)))
                         (snd (snd (prepare_integrate_geodesic_distance
                           (two_triangles\<lparr>position := p\<rparr>) (default_parameters [0]) bfs
                           init_grad))))) of
                  Inl e \<Rightarrow> Inl e
                | Inr d \<Rightarrow> Inr (True, d))))"
    by blast
  have i': "3 < n_vertices (two_triangles\<lparr>position := p\<rparr>)" using i by simp
  have "solve True two_triangles (default_parameters [0]) [] = Inl Index_Out_Of_Range"
    unfolding u two_triangles_bfs by (simp add: gauss_seidel_fault[OF i' neg])
  then show ?thesis using two_triangles_bfs two_triangles_load_input by simp
qed

text \<open>
  Claim C8 (the X-update of the ADMM iteration). For a triangle mesh whose edges each
  bound one or two faces, the preprocessing registers with every edge \<open>e\<close> exactly the
  slots \<open>3 i + k\<close> of the face corners whose halfedge lies on \<open>e\<close>, in increasing order;
  their number \<open>n\<close> is at least 1 and at most 2, so the divisor \<open>(penalty + 1) * n\<close>
  vanishes only for \<open>penalty = -1\<close>. \<open>update_X\<close> sets
  \<open>X[e] = (sum over those slots of penalty * (Y[slot] + D[slot]) + Z[slot]) / ((penalty + 1) * n)\<close>,
  also inside an ADMM iteration, where \<open>Y\<close> is the vector just computed by \<open>update_Y\<close>.
\<close>

theorem update_X_average:
  assumes faces: "faces_ok m" and edges: "edges_ok m"
    and pr: "prepare_integrate_geodesic_distance m param bfs init_grad = (tr, ad, s0)"
    and e: "e < n_edges m"
    and X: "length X = n_edges m"
    and s: "length (var_X s) = n_edges m"
  shows "valid_slots (ad_edges_Y_index ad) e =
           filter (\<lambda>j. edge m (face_corners m ! j) = e) [0..<3 * n_faces m]
    \<and> length (valid_slots (ad_edges_Y_index ad) e) =
           length (filter (\<lambda>h. edge m h = e) (face_corners m))
    \<and> 1 \<le> length (valid_slots (ad_edges_Y_index ad) e)
    \<and> length (valid_slots (ad_edges_Y_index ad) e) \<le> 2
    \<and> ((penalty param + 1) * real (length (valid_slots (ad_edges_Y_index ad) e)) = 0)
         = (penalty param = - 1)
    \<and> update_X (ad_n_edges ad) (ad_penalty ad) (ad_edges_Y_index ad) Y D (ad_Z ad) X ! e =
         sum_list (map (\<lambda>i. penalty param * (Y ! i + D ! i) + ad_Z ad ! i)
                       (valid_slots (ad_edges_Y_index ad) e))
           / ((penalty param + 1) * real (length (valid_slots (ad_edges_Y_index ad) e)))
    \<and> var_X (admm_iteration ad s) ! e =
         sum_list (map (\<lambda>i. penalty param * (var_Y (admm_iteration ad s) ! i + var_D s ! i)
                               + ad_Z ad ! i)
                       (valid_slots (ad_edges_Y_index ad) e))
           / ((penalty param + 1) * real (length (valid_slots (ad_edges_Y_index ad) e)))"
proof -
  obtain Z S Q EY NR where ci: "compute_incidence m init_grad = (Z, S, Q, EY, NR)"
    by (cases "compute_incidence m init_grad")
  note ad = prepare_admm_data[OF ci pr]
  have f3: "\<forall>f<n_faces m. length (halfedges_f m f) = 3"
    using faces by (simp add: faces_ok_def)
  note vs = compute_incidence_valid_slots[OF f3 edges ci e]
  have cnt: "1 \<le> length (filter (\<lambda>h. edge m h = e) (face_corners m))"
      "length (filter (\<lambda>h. edge m h = e) (face_corners m)) \<le> 2"
    using edges e by (simp_all add: edges_ok_def)
  have a: "valid_slots (ad_edges_Y_index ad) e =
           filter (\<lambda>j. edge m (face_corners m ! j) = e) [0..<3 * n_faces m]"
    unfolding ad by (rule vs(1))
  have b: "length (valid_slots (ad_edges_Y_index ad) e) =
           length (filter (\<lambda>h. edge m h = e) (face_corners m))"
    unfolding ad by (rule vs(2))
  have c: "1 \<le> length (valid_slots (ad_edges_Y_index ad) e)"
    "length (valid_slots (ad_edges_Y_index ad) e) \<le> 2"
    using cnt by (simp_all add: b)
  have d: "((penalty param + 1) * real (length (valid_slots (ad_edges_Y_index ad) e)) = 0)
         = (penalty param = - 1)"
    using c(1) by auto
  have ux: "update_X (ad_n_edges ad) (ad_penalty ad) (ad_edges_Y_index ad) Y' D' (ad_Z ad) X' ! e =
         sum_list (map (\<lambda>i. penalty param * (Y' ! i + D' ! i) + ad_Z ad ! i)
                       (valid_slots (ad_edges_Y_index ad) e))
           / ((penalty param + 1) * real (length (valid_slots (ad_edges_Y_index ad) e)))"
    if "length X' = n_edges m" for Y' D' X'
    using update_X_nth[OF e that] by (simp add: ad)
  have vy: "var_Y (admm_iteration ad s) =
      update_Y (ad_n_faces ad) (prev_SX s) (var_D s) (ad_Q ad) (var_Y s)"
    by (simp add: admm_iteration_def update_dual_variables_def Let_def)
  have it: "var_X (admm_iteration ad s) ! e =
         sum_list (map (\<lambda>i. penalty param * (var_Y (admm_iteration ad s) ! i + var_D s ! i)
                               + ad_Z ad ! i)
                       (valid_slots (ad_edges_Y_index ad) e))
           / ((penalty param + 1) * real (length (valid_slots (ad_edges_Y_index ad) e)))"
    unfolding vy admm_iteration_X by (rule ux[OF s])
  show ?thesis
    apply (rule conjI, rule a)
    apply (rule conjI, rule b)
    apply (rule conjI, rule c(1))
    apply (rule conjI, rule c(2))
    apply (rule conjI, rule d)
    apply (rule conjI, rule ux[OF X])
    apply (rule it)
    done
qed

theorem update_X_average_witness:
  "faces_ok triangle_mesh \<and> edges_ok triangle_mesh
   \<and> valid_slots (ad_edges_Y_index triangle_admm_data) 0 = [0]
   \<and> update_X (ad_n_edges triangle_admm_data) (ad_penalty triangle_admm_data)
        (ad_edges_Y_index triangle_admm_data) [1, 2, 3] [4, 5, 6] (ad_Z triangle_admm_data)
        [0, 0, 0] ! 0 = 2"
proof -
  have pr: "prepare_integrate_geodesic_distance triangle_mesh (default_parameters [0])
              triangle_bfs_state [(1, 2, 3)] =
            (fst (prepare_integrate_geodesic_distance triangle_mesh (default_parameters [0])
                    triangle_bfs_state [(1, 2, 3)]),
             triangle_admm_data, triangle_admm_state)"
    by (simp add: triangle_admm_data_def triangle_admm_state_def)
  have e: "0 < n_edges triangle_mesh" by (simp add: triangle_mesh_def)
  have X: "length [0, 0, 0 :: real] = n_edges triangle_mesh" by (simp add: triangle_mesh_def)
  have p: "penalty (default_parameters [0]) = 1" by (simp add: default_parameters_def)
  from update_X_average[OF triangle_faces_ok triangle_edges_ok pr e X triangle_admm_X,
      of "[1, 2, 3]" "[4, 5, 6]"]
  have "valid_slots (ad_edges_Y_index triangle_admm_data) 0 = [0]
   \<and> update_X (ad_n_edges triangle_admm_data) (ad_penalty triangle_admm_data)
        (ad_edges_Y_index triangle_admm_data) [1, 2, 3] [4, 5, 6] (ad_Z triangle_admm_data)
        [0, 0, 0] ! 0 = 2"
    by (simp add: triangle_slots triangle_admm_Z p)
  then show ?thesis using triangle_faces_ok triangle_edges_ok by simp
qed

end
